theory Spec2Isabelle
  imports Complex_Main "HOL-Library.AList"
begin

section \<open>JavaScript values and plain objects\<close>

text \<open>
  The values that reach the program from the row store are untyped (\<open>unknown\<close> in the
  source). Of a number only its truthiness is ever read, so a finite number is carried by
  its exact value and \<open>NaN\<close> is a constructor of its own. A plain object is the list of
  its own enumerable string-keyed properties in enumeration order, with distinct keys.
\<close>

datatype jsval =
    JUndefined
  | JNull
  | JBool bool
  | JNum rat
  | JNaN
  | JStr string
  | JArr "jsval list"
  | JObj "(string \<times> jsval) list"

type_synonym jsobject = "(string \<times> jsval) list"

text \<open>\<open>Record<string, true>\<close> of the source: at run time an ordinary object.\<close>

type_synonym cells = jsobject

text \<open>\<open>Boolean(v)\<close> and the test \<open>if (v)\<close>: false, 0, NaN, the empty string, null
  and undefined are falsy, every object (arrays included) is truthy.\<close>

fun truthy :: "jsval \<Rightarrow> bool" where
  "truthy JUndefined = False"
| "truthy JNull = False"
| "truthy (JBool b) = b"
| "truthy (JNum r) = (r \<noteq> 0)"
| "truthy JNaN = False"
| "truthy (JStr s) = (s \<noteq> [])"
| "truthy (JArr vs) = True"
| "truthy (JObj kvs) = True"

text \<open>
  A property read \<open>obj[key]\<close> on a plain object looks at the own properties first and
  then at \<open>Object.prototype\<close>, whose members (functions, and the prototype object behind
  \<open>__proto__\<close>) are all truthy.
\<close>

definition Object_prototype_names :: "string list" where
  "Object_prototype_names =
     [''constructor'', ''__defineGetter__'', ''__defineSetter__'', ''hasOwnProperty'',
      ''__lookupGetter__'', ''__lookupSetter__'', ''isPrototypeOf'',
      ''propertyIsEnumerable'', ''toString'', ''valueOf'', ''__proto__'',
      ''toLocaleString'']"

definition inherited :: "string \<Rightarrow> bool" where
  "inherited key = (key \<in> set Object_prototype_names)"

text \<open>\<open>Boolean(obj[key])\<close>, and the negation of \<open>!obj[key]\<close>.\<close>

definition truthy_prop :: "jsobject \<Rightarrow> string \<Rightarrow> bool" where
  "truthy_prop obj key =
     (case map_of obj key of Some v \<Rightarrow> truthy v | None \<Rightarrow> inherited key)"

text \<open>
  The assignment \<open>obj[key] = v\<close> of a primitive \<open>v\<close>: an own property is overwritten in
  place, a new one is appended; only the key \<open>__proto__\<close>, when it is not an own
  property, reaches the setter of \<open>Object.prototype\<close>, which ignores a primitive.
\<close>

definition assign :: "(string \<times> 'v) list \<Rightarrow> string \<Rightarrow> 'v \<Rightarrow> (string \<times> 'v) list" where
  "assign obj key v =
     (if key = ''__proto__'' \<and> map_of obj key = None then obj
      else AList.update key v obj)"

text \<open>\<open>Object.entries(value)\<close> for the two kinds of value that pass the object test.\<close>

definition digit :: "nat \<Rightarrow> char" where
  "digit n = ''0123456789'' ! (n mod 10)"

fun numstr :: "nat \<Rightarrow> string" where
  "numstr n = (if n < 10 then [digit n] else numstr (n div 10) @ [digit (n mod 10)])"

declare numstr.simps [simp del]

fun entries :: "jsval \<Rightarrow> (string \<times> jsval) list" where
  "entries (JObj kvs) = kvs"
| "entries (JArr vs) = zip (map numstr [0..<length vs]) vs"
| "entries v = []"

section \<open>Numbers\<close>

text \<open>
  A JavaScript number is an IEEE 754 binary64 value: a finite value (the two zeros are
  not told apart, no operation below depends on the sign of zero), an infinity, or
  \<open>NaN\<close>. A finite value is carried by the rational it denotes; every arithmetic result
  is the exact result rounded to the nearest double, ties to even.
\<close>

datatype jsnum = Fin rat | PosInf | NegInf | NaN

fun bitlength :: "nat \<Rightarrow> nat" where
  "bitlength n = (if n = 0 then 0 else Suc (bitlength (n div 2)))"

declare bitlength.simps [simp del]

definition pow2 :: "int \<Rightarrow> rat" where
  "pow2 k = (if 0 \<le> k then 2 ^ nat k else 1 / 2 ^ nat (- k))"

text \<open>The exponent of a positive rational: the \<open>e\<close> with \<open>2^e \<le> x < 2^(e+1)\<close>.\<close>

definition ilog2 :: "rat \<Rightarrow> int" where
  "ilog2 x =
     (if 1 \<le> x then int (bitlength (nat \<lfloor>x\<rfloor>)) - 1
      else (let y = 1 / x; l = int (bitlength (nat \<lfloor>y\<rfloor>))
            in if y = pow2 (l - 1) then - (l - 1) else - l))"

definition round_half_even :: "rat \<Rightarrow> int" where
  "round_half_even y =
     (let f = \<lfloor>y\<rfloor>; r = y - of_int f
      in if r < 1 / 2 then f
         else if 1 / 2 < r then f + 1
         else if even f then f else f + 1)"

text \<open>
  Rounding to binary64: 53 significant bits, the spacing of the subnormals below
  \<open>2^-1022\<close>, and an infinity once the rounded magnitude reaches \<open>2^1024\<close>. It is
  also the value of a decimal literal.
\<close>

definition to_double :: "rat \<Rightarrow> jsnum" where
  "to_double x =
     (if x = 0 then Fin 0
      else (let e = max (ilog2 \<bar>x\<bar>) (- 1022);
                q = pow2 (e - 52);
                r = of_int (round_half_even (x / q)) * q
            in if pow2 1024 \<le> \<bar>r\<bar> then (if 0 < x then PosInf else NegInf)
               else Fin r))"

text \<open>\<open>a - b\<close>.\<close>

fun fsub :: "jsnum \<Rightarrow> jsnum \<Rightarrow> jsnum" where
  "fsub NaN b = NaN"
| "fsub a NaN = NaN"
| "fsub (Fin a) (Fin b) = to_double (a - b)"
| "fsub (Fin a) PosInf = NegInf"
| "fsub (Fin a) NegInf = PosInf"
| "fsub PosInf PosInf = NaN"
| "fsub PosInf b = PosInf"
| "fsub NegInf NegInf = NaN"
| "fsub NegInf b = NegInf"

text \<open>\<open>a * b\<close>.\<close>

fun fmul :: "jsnum \<Rightarrow> jsnum \<Rightarrow> jsnum" where
  "fmul NaN b = NaN"
| "fmul a NaN = NaN"
| "fmul (Fin a) (Fin b) = to_double (a * b)"
| "fmul (Fin a) PosInf = (if a = 0 then NaN else if 0 < a then PosInf else NegInf)"
| "fmul (Fin a) NegInf = (if a = 0 then NaN else if 0 < a then NegInf else PosInf)"
| "fmul PosInf (Fin b) = (if b = 0 then NaN else if 0 < b then PosInf else NegInf)"
| "fmul NegInf (Fin b) = (if b = 0 then NaN else if 0 < b then NegInf else PosInf)"
| "fmul PosInf PosInf = PosInf"
| "fmul PosInf NegInf = NegInf"
| "fmul NegInf PosInf = NegInf"
| "fmul NegInf NegInf = PosInf"

text \<open>\<open>Math.abs(a)\<close>.\<close>

fun fabs :: "jsnum \<Rightarrow> jsnum" where
  "fabs (Fin a) = Fin \<bar>a\<bar>"
| "fabs PosInf = PosInf"
| "fabs NegInf = PosInf"
| "fabs NaN = NaN"

text \<open>\<open>a < b\<close>; the source's \<open>a > b\<close> is \<open>flt b a\<close>. A comparison with \<open>NaN\<close> is
  false.\<close>

fun flt :: "jsnum \<Rightarrow> jsnum \<Rightarrow> bool" where
  "flt NaN b = False"
| "flt a NaN = False"
| "flt (Fin a) (Fin b) = (a < b)"
| "flt (Fin a) PosInf = True"
| "flt (Fin a) NegInf = False"
| "flt PosInf b = False"
| "flt NegInf NegInf = False"
| "flt NegInf b = True"

section \<open>Time-grid model\<close>

text \<open>\<open>DAY_COUNT\<close> is \<open>DAY_LABELS.length\<close>; the labels themselves are presentation.\<close>

definition DAY_COUNT :: nat where
  "DAY_COUNT = 7"

definition START_HOUR :: nat where
  "START_HOUR = 16"

definition END_HOUR :: nat where
  "END_HOUR = 24"

definition SLOT_MINUTES :: nat where
  "SLOT_MINUTES = 30"

definition SLOT_COUNT :: nat where
  "SLOT_COUNT = ((END_HOUR - START_HOUR) * 60) div SLOT_MINUTES"

text \<open>The minimum durations that the duration selector offers; the selector is the only
  writer of \<open>minimumDuration\<close>, whose initial value is 60.\<close>

definition DURATION_OPTIONS :: "int list" where
  "DURATION_OPTIONS = [30, 60, 90, 120]"

definition TOUCH_GESTURE_START_PX :: jsnum where
  "TOUCH_GESTURE_START_PX = to_double 10"

definition TOUCH_GESTURE_AXIS_RATIO :: jsnum where
  "TOUCH_GESTURE_AXIS_RATIO = to_double (12 / 10)"

text \<open>\<open>keyFor\<close>: the template literal \<open>`${day}-${slot}`\<close> on grid indices.\<close>

definition keyFor :: "nat \<Rightarrow> nat \<Rightarrow> string" where
  "keyFor day slot = numstr day @ ''-'' @ numstr slot"

section \<open>Cell sets\<close>

text \<open>\<open>sanitizeCells\<close>: anything that is not a non-null object gives the empty record;
  of an object only the truthy entries are kept, each stored as \<open>true\<close>.\<close>

definition sanitizeCells :: "jsval \<Rightarrow> cells" where
  "sanitizeCells v =
     (if \<not> truthy v \<or> \<not> (case v of JObj _ \<Rightarrow> True | JArr _ \<Rightarrow> True | _ \<Rightarrow> False)
      then []
      else fold (\<lambda>(key, marked) result.
                   if truthy marked then assign result key (JBool True) else result)
                (entries v) [])"

text \<open>\<open>sameCells\<close>: equal numbers of own keys, and every key of the left record reads
  truthy in the right one.\<close>

definition sameCells :: "cells \<Rightarrow> cells \<Rightarrow> bool" where
  "sameCells left right =
     (let leftKeys = map fst left; rightKeys = map fst right
      in if length leftKeys \<noteq> length rightKeys then False
         else list_all (\<lambda>key. truthy_prop right key) leftKeys)"

text \<open>The updater that \<open>paintCell\<close> hands to \<open>setDraftCells\<close>.\<close>

definition paint_updater :: "string \<Rightarrow> bool \<Rightarrow> cells \<Rightarrow> cells" where
  "paint_updater key v previous =
     (let currentlyMarked = truthy_prop previous key
      in if currentlyMarked = v then previous
         else (let nextCells = previous
               in if v then assign nextCells key (JBool True)
                  else AList.delete key nextCells))"

section \<open>Members and session state\<close>

record TeamMember =
  member_id :: string
  team_code :: string
  user_id :: string
  display_name :: string
  cells :: cells
  updated_at :: "string option"
  last_editor :: "string option"
  is_stale :: bool
  is_legacy_unavailable_mode :: bool

record DrawingState =
  d_active :: bool
  d_value :: bool

datatype gesture_mode = Pending | Paint | Scroll

record TouchGestureState =
  g_active :: bool
  g_pointerId :: "int option"
  g_startX :: jsnum
  g_startY :: jsnum
  g_startDay :: nat
  g_startSlot :: nat
  g_value :: bool
  g_mode :: gesture_mode

record TimeBlock =
  day :: nat
  startSlot :: int
  endSlot :: int
  minutes :: int

text \<open>The payload of one \<open>update\<close> call on the row store, with the row it is
  restricted to.\<close>

record backend_update =
  upd_team_code :: string
  upd_user_id :: string
  upd_cells :: cells
  upd_last_editor :: string
  upd_updated_at :: string

text \<open>The status line; the texts themselves are presentation.\<close>

datatype status =
    StatusInitial
  | StatusConnected
  | StatusSaveFailed string
  | StatusFetchFailed string

text \<open>A callback waiting in \<open>setTimeout\<close>: its delay, and what it will run.\<close>

datatype callback = PersistDraft

datatype PaintMode = Smart | Mark | Erase

text \<open>What the handlers read of a pointer event; \<open>is_touch\<close> is
  \<open>pointerType === "touch"\<close>.\<close>

record pointer_event =
  pointerId :: int
  is_touch :: bool
  clientX :: jsnum
  clientY :: jsnum

text \<open>
  The part of the component state that the grid interaction reads and writes. The two
  refs (\<open>draftCellsRef\<close>, \<open>touchGestureRef\<close>) mirror their state after every render and
  are read here as the state itself; the row store is seen through the list of updates
  issued to it.
\<close>

record app_state =
  has_client :: bool
  userId :: string
  isMobileViewport :: bool
  mobileEditEnabled :: bool
  members :: "TeamMember list"
  selectedMemberId :: string
  draftCells :: cells
  drawing :: DrawingState
  paintMode :: PaintMode
  touchGesture :: TouchGestureState
  statusMessage :: status
  writes :: "backend_update list"
  timers :: "(nat \<times> callback) list"

definition TEAM_CODE :: string where
  "TEAM_CODE = ''online-ministry-team''"

definition myMember :: "app_state \<Rightarrow> TeamMember option" where
  "myMember st = find (\<lambda>member. user_id member = userId st) (members st)"

definition resolvedSelectedMemberId :: "app_state \<Rightarrow> string" where
  "resolvedSelectedMemberId st =
     (if list_ex (\<lambda>member. member_id member = selectedMemberId st) (members st)
      then selectedMemberId st
      else (case myMember st of
              Some m \<Rightarrow> member_id m
            | None \<Rightarrow> (case members st of [] \<Rightarrow> [] | m # _ \<Rightarrow> member_id m)))"

definition selectedMember :: "app_state \<Rightarrow> TeamMember option" where
  "selectedMember st =
     find (\<lambda>member. member_id member = resolvedSelectedMemberId st) (members st)"

definition canEditSelected :: "app_state \<Rightarrow> bool" where
  "canEditSelected st =
     (case selectedMember st of Some m \<Rightarrow> user_id m = userId st | None \<Rightarrow> False)"

definition isCellInputEnabled :: "app_state \<Rightarrow> bool" where
  "isCellInputEnabled st =
     (canEditSelected st \<and> (\<not> isMobileViewport st \<or> mobileEditEnabled st))"

definition paintCell :: "nat \<Rightarrow> nat \<Rightarrow> bool \<Rightarrow> app_state \<Rightarrow> app_state" where
  "paintCell d s v st =
     (if \<not> isCellInputEnabled st then st
      else st\<lparr>draftCells := paint_updater (keyFor d s) v (draftCells st)\<rparr>)"

section \<open>Member availability store\<close>

text \<open>
  \<open>isStaleWeek\<close>. The date parser of the platform is a parameter: \<open>parse s\<close> is the
  time value of \<open>new Date(s)\<close> in milliseconds, \<open>None\<close> where that is \<open>NaN\<close>.
\<close>

definition isStaleWeek :: "(string \<Rightarrow> int option) \<Rightarrow> string option \<Rightarrow> int \<Rightarrow> bool" where
  "isStaleWeek parse updatedAt weekStartMs =
     (case updatedAt of
        None \<Rightarrow> True
      | Some s \<Rightarrow>
          if s = [] then True
          else (case parse s of None \<Rightarrow> True | Some ms \<Rightarrow> ms < weekStartMs))"

text \<open>A field read \<open>data.name\<close> for the names \<open>toMember\<close> reads, none of which is
  inherited.\<close>

definition field :: "jsval \<Rightarrow> string \<Rightarrow> jsval" where
  "field v name =
     (case v of
        JObj kvs \<Rightarrow> (case map_of kvs name of Some x \<Rightarrow> x | None \<Rightarrow> JUndefined)
      | _ \<Rightarrow> JUndefined)"

definition string_or :: "jsval \<Rightarrow> string \<Rightarrow> string" where
  "string_or v dflt = (case v of JStr s \<Rightarrow> s | _ \<Rightarrow> dflt)"

definition string_or_null :: "jsval \<Rightarrow> string option" where
  "string_or_null v = (case v of JStr s \<Rightarrow> Some s | _ \<Rightarrow> None)"

text \<open>The placeholder display name: the UTF-8 bytes of the source's literal.\<close>

definition NAME_PLACEHOLDER :: string where
  "NAME_PLACEHOLDER =
     [CHR 0xEC, CHR 0x9D, CHR 0xB4, CHR 0xEB, CHR 0xA6, CHR 0x84, CHR 0x20,
      CHR 0xEB, CHR 0xAF, CHR 0xB8, CHR 0xEC, CHR 0xA7, CHR 0x80,
      CHR 0xEC, CHR 0xA0, CHR 0x95]"

definition toMember :: "jsval \<Rightarrow> TeamMember" where
  "toMember row =
     (let data = (case row of JUndefined \<Rightarrow> JObj [] | JNull \<Rightarrow> JObj [] | _ \<Rightarrow> row);
          legacyUnavailable = (field data ''mode'' = JStr ''unavailable'')
      in \<lparr> member_id = string_or (field data ''id'') [],
           team_code = string_or (field data ''team_code'') TEAM_CODE,
           user_id = string_or (field data ''user_id'') [],
           display_name = string_or (field data ''display_name'') NAME_PLACEHOLDER,
           cells = (if legacyUnavailable then [] else sanitizeCells (field data ''cells'')),
           updated_at = string_or_null (field data ''updated_at''),
           last_editor = string_or_null (field data ''last_editor''),
           is_stale = False,
           is_legacy_unavailable_mode = legacyUnavailable \<rparr>)"

text \<open>The function \<open>fetchMembers\<close> maps over the fetched rows.\<close>

definition presentRow :: "(string \<Rightarrow> int option) \<Rightarrow> int \<Rightarrow> jsval \<Rightarrow> TeamMember" where
  "presentRow parse currentWeekStartMs row =
     (let member = toMember row
      in if isStaleWeek parse (updated_at member) currentWeekStartMs
         then member\<lparr>cells := [], is_stale := True\<rparr>
         else member\<lparr>is_stale := False\<rparr>)"

text \<open>\<open>fetchMembers\<close>, given the answer of the row store: an error message or the rows
  (\<open>data ?? []\<close>).\<close>

definition fetchMembers ::
  "(string \<Rightarrow> int option) \<Rightarrow> int \<Rightarrow> string option \<Rightarrow> jsval list option \<Rightarrow>
   app_state \<Rightarrow> app_state" where
  "fetchMembers parse currentWeekStartMs err data st =
     (if \<not> has_client st \<or> userId st = [] then st
      else (case err of
              Some msg \<Rightarrow>
                if msg \<noteq> [] then st\<lparr>statusMessage := StatusFetchFailed msg\<rparr>
                else st\<lparr>members := map (presentRow parse currentWeekStartMs)
                                      (case data of Some rows \<Rightarrow> rows | None \<Rightarrow> [])\<rparr>
            | None \<Rightarrow>
                st\<lparr>members := map (presentRow parse currentWeekStartMs)
                                  (case data of Some rows \<Rightarrow> rows | None \<Rightarrow> [])\<rparr>))"

section \<open>Local draft and commit\<close>

text \<open>The effect that reconciles the draft buffer with the local user's row.\<close>

definition reconcileDraft :: "app_state \<Rightarrow> app_state" where
  "reconcileDraft st =
     (if d_active (drawing st) then st
      else (case myMember st of
              None \<Rightarrow> st
            | Some m \<Rightarrow>
                (let nextCells = cells m; previous = draftCells st
                 in st\<lparr>draftCells :=
                          (if sameCells previous nextCells then previous else nextCells)\<rparr>)))"

text \<open>
  \<open>persistMyCells\<close>. \<open>now\<close> is the ISO timestamp of the clock at the call and \<open>err\<close> the
  error message of the row store's answer, if any.
\<close>

definition persistMyCells :: "string \<Rightarrow> string option \<Rightarrow> cells \<Rightarrow> app_state \<Rightarrow> app_state" where
  "persistMyCells now err nextCells st =
     (case myMember st of
        None \<Rightarrow> st
      | Some m \<Rightarrow>
          if \<not> has_client st \<or> userId st = [] then st
          else if sameCells (cells m) nextCells then st
          else
            (let editorName = display_name m;
                 st1 = st\<lparr>writes := writes st @
                          [\<lparr> upd_team_code = TEAM_CODE, upd_user_id = userId st,
                             upd_cells = nextCells, upd_last_editor = editorName,
                             upd_updated_at = now \<rparr>]\<rparr>
             in (case err of
                   Some msg \<Rightarrow>
                     if msg \<noteq> [] then st1\<lparr>statusMessage := StatusSaveFailed msg\<rparr>
                     else st1\<lparr>statusMessage := StatusConnected\<rparr>
                 | None \<Rightarrow> st1\<lparr>statusMessage := StatusConnected\<rparr>)))"

definition clearMyCells :: "string \<Rightarrow> string option \<Rightarrow> app_state \<Rightarrow> app_state" where
  "clearMyCells now err st =
     (case myMember st of
        None \<Rightarrow> st
      | Some m \<Rightarrow> (let empty = [] in persistMyCells now err empty (st\<lparr>draftCells := empty\<rparr>)))"

text \<open>A timer that fires runs its callback on the state of that moment.\<close>

definition fireTimer :: "string \<Rightarrow> string option \<Rightarrow> app_state \<Rightarrow> app_state" where
  "fireTimer now err st =
     (case timers st of
        [] \<Rightarrow> st
      | (delay, PersistDraft) # rest \<Rightarrow>
          persistMyCells now err (draftCells st) (st\<lparr>timers := rest\<rparr>))"

section \<open>Gesture-to-edit translator\<close>

definition idle_gesture :: TouchGestureState where
  "idle_gesture =
     \<lparr> g_active = False, g_pointerId = None, g_startX = Fin 0, g_startY = Fin 0,
       g_startDay = 0, g_startSlot = 0, g_value = True, g_mode = Pending \<rparr>"

text \<open>The \<open>onClick\<close> handler of a member's button in the member list.\<close>

definition selectMember :: "string \<Rightarrow> app_state \<Rightarrow> app_state" where
  "selectMember memberId st = st\<lparr>selectedMemberId := memberId\<rparr>"

definition displayedCells :: "app_state \<Rightarrow> cells" where
  "displayedCells st =
     (case selectedMember st of
        None \<Rightarrow> []
      | Some m \<Rightarrow> if user_id m = userId st then draftCells st else cells m)"

text \<open>The \<open>onPointerDown\<close> handler of the cell \<open>(dayIndex, slot)\<close>.\<close>

definition onPointerDown :: "nat \<Rightarrow> nat \<Rightarrow> pointer_event \<Rightarrow> app_state \<Rightarrow> app_state" where
  "onPointerDown dayIndex slot event st =
     (if \<not> isCellInputEnabled st then st
      else
        (let currentValue = truthy_prop (displayedCells st) (keyFor dayIndex slot);
             nextValue = (if paintMode st = Smart then \<not> currentValue else paintMode st = Mark)
         in if is_touch event
            then st\<lparr>touchGesture :=
                      \<lparr> g_active = True, g_pointerId = Some (pointerId event),
                        g_startX = clientX event, g_startY = clientY event,
                        g_startDay = dayIndex, g_startSlot = slot,
                        g_value = nextValue, g_mode = Pending \<rparr>\<rparr>
            else paintCell dayIndex slot nextValue
                   (st\<lparr>drawing := \<lparr> d_active = True, d_value = nextValue \<rparr>\<rparr>)))"

text \<open>The \<open>onPointerEnter\<close> handler of the cell \<open>(dayIndex, slot)\<close>.\<close>

definition onPointerEnter :: "nat \<Rightarrow> nat \<Rightarrow> app_state \<Rightarrow> app_state" where
  "onPointerEnter dayIndex slot st =
     (if \<not> d_active (drawing st) then st
      else paintCell dayIndex slot (d_value (drawing st)) st)"

text \<open>Whether an event belongs to another pointer than the one the gesture tracks.\<close>

definition other_pointer :: "TouchGestureState \<Rightarrow> pointer_event \<Rightarrow> bool" where
  "other_pointer gesture event =
     (case g_pointerId gesture of Some p \<Rightarrow> pointerId event \<noteq> p | None \<Rightarrow> False)"

text \<open>
  \<open>stopDrawing\<close>, the listener of pointer-up and pointer-cancel; the mobile effect calls
  it without an event. A pending tap defers its commit by 80 ms; otherwise the commit
  runs at once.
\<close>

definition stopDrawing ::
  "string \<Rightarrow> string option \<Rightarrow> pointer_event option \<Rightarrow> app_state \<Rightarrow> app_state" where
  "stopDrawing now err event st =
     (let gesture = touchGesture st
      in if g_active gesture \<and>
            (case event of Some e \<Rightarrow> other_pointer gesture e | None \<Rightarrow> False)
         then st
         else
           (let handledPendingTap = (g_active gesture \<and> g_mode gesture = Pending);
                st1 = (if handledPendingTap
                       then paintCell (g_startDay gesture) (g_startSlot gesture)
                              (g_value gesture) st
                       else st);
                st2 = (if g_active gesture
                       then st1\<lparr>touchGesture :=
                                  (if g_active (touchGesture st1) then idle_gesture
                                   else touchGesture st1)\<rparr>
                       else st1);
                st3 = st2\<lparr>drawing :=
                            (if d_active (drawing st2)
                             then \<lparr> d_active = False, d_value = d_value (drawing st2) \<rparr>
                             else drawing st2)\<rparr>
            in if canEditSelected st
               then (if handledPendingTap
                     then st3\<lparr>timers := timers st3 @ [(80, PersistDraft)]\<rparr>
                     else persistMyCells now err (draftCells st3) st3)
               else st3))"

text \<open>The guard of the debounce effect: it arms its 120 ms timer only while drawing.\<close>

definition debounceArmed :: "app_state \<Rightarrow> bool" where
  "debounceArmed st = (d_active (drawing st) \<and> isCellInputEnabled st)"

text \<open>
  \<open>handlePointerMove\<close>. The hit test \<open>findCellByPoint\<close> queries the rendered page and
  is a parameter. The second read of the gesture ref (\<open>latest\<close>) happens before any
  render, so it yields the gesture read first.
\<close>

definition paintFound ::
  "(jsnum \<Rightarrow> jsnum \<Rightarrow> (nat \<times> nat) option) \<Rightarrow> pointer_event \<Rightarrow> bool \<Rightarrow> app_state \<Rightarrow> app_state" where
  "paintFound findCellByPoint event v st =
     (case findCellByPoint (clientX event) (clientY event) of
        None \<Rightarrow> st
      | Some (d, s) \<Rightarrow> paintCell d s v st)"

definition handlePointerMove ::
  "(jsnum \<Rightarrow> jsnum \<Rightarrow> (nat \<times> nat) option) \<Rightarrow> pointer_event \<Rightarrow> app_state \<Rightarrow> app_state" where
  "handlePointerMove findCellByPoint event st =
     (let gesture = touchGesture st
      in if g_active gesture then
           (if other_pointer gesture event then st
            else if g_mode gesture = Pending then
              (let dx = fsub (clientX event) (g_startX gesture);
                   dy = fsub (clientY event) (g_startY gesture);
                   absX = fabs dx;
                   absY = fabs dy
               in if flt absX TOUCH_GESTURE_START_PX \<and> flt absY TOUCH_GESTURE_START_PX
                  then st
                  else if flt (fmul absY TOUCH_GESTURE_AXIS_RATIO) absX
                  then st\<lparr>touchGesture := gesture\<lparr>g_mode := Scroll\<rparr>\<rparr>
                  else
                    (let st1 = st\<lparr>touchGesture := gesture\<lparr>g_mode := Paint\<rparr>,
                                  drawing := \<lparr> d_active = True, d_value = g_value gesture \<rparr>\<rparr>;
                         st2 = paintCell (g_startDay gesture) (g_startSlot gesture)
                                 (g_value gesture) st1;
                         latest = gesture
                     in if g_mode latest = Scroll then st2
                        else paintFound findCellByPoint event (g_value latest) st2))
            else
              (let latest = gesture
               in if g_mode latest = Scroll then st
                  else paintFound findCellByPoint event (g_value latest) st))
         else if \<not> d_active (drawing st) then st
         else paintFound findCellByPoint event (d_value (drawing st)) st)"

section \<open>Aggregation engine\<close>

definition membersForCalculation :: "app_state \<Rightarrow> TeamMember list" where
  "membersForCalculation st =
     map (\<lambda>member. if user_id member = userId st
                    then member\<lparr>cells := draftCells st\<rparr> else member)
         (members st)"

definition isAvailable :: "TeamMember \<Rightarrow> string \<Rightarrow> bool" where
  "isAvailable member key = truthy_prop (cells member) key"

definition availabilityCountByCell :: "TeamMember list \<Rightarrow> (string \<times> nat) list" where
  "availabilityCountByCell mfc =
     fold (\<lambda>d counts.
             fold (\<lambda>slot counts.
                     (let key = keyFor d slot
                      in assign counts key
                           (fold (\<lambda>member count. count + (if isAvailable member key then 1 else 0))
                                 mfc 0)))
                  [0..<SLOT_COUNT] counts)
          [0..<DAY_COUNT] []"

definition commonCells :: "TeamMember list \<Rightarrow> (string \<times> nat) list \<Rightarrow> cells" where
  "commonCells mfc counts =
     (if length mfc = 0 then []
      else fold (\<lambda>d common.
                   fold (\<lambda>slot common.
                           (let key = keyFor d slot
                            in if map_of counts key = Some (length mfc)
                               then assign common key (JBool True) else common))
                        [0..<SLOT_COUNT] common)
                [0..<DAY_COUNT] [])"

definition commonCellCount :: "cells \<Rightarrow> nat" where
  "commonCellCount common = length (map fst common)"

text \<open>One turn of the inner loop of \<open>recommendedBlocks\<close>, on the running \<open>start\<close> (with
  its sentinel \<open>-1\<close>) and the blocks pushed so far.\<close>

definition scan_slot ::
  "cells \<Rightarrow> int \<Rightarrow> nat \<Rightarrow> nat \<Rightarrow> int \<times> TimeBlock list \<Rightarrow> int \<times> TimeBlock list" where
  "scan_slot common_cells minSlots d slot acc =
     (let start = fst acc; blocks = snd acc;
          currentKey = (if slot < SLOT_COUNT then keyFor d slot else []);
          common = (slot < SLOT_COUNT \<and> truthy_prop common_cells currentKey);
          start1 = (if common \<and> start < 0 then int slot else start)
      in if \<not> common \<and> start1 \<ge> 0
         then (let len = int slot - start1
               in (- 1,
                   if len \<ge> minSlots
                   then blocks @ [\<lparr> day = d, startSlot = start1, endSlot = int slot,
                                    minutes = len * int SLOT_MINUTES \<rparr>]
                   else blocks))
         else (start1, blocks))"

definition recommendedBlocks :: "TeamMember list \<Rightarrow> cells \<Rightarrow> int \<Rightarrow> TimeBlock list" where
  "recommendedBlocks mfc common_cells minimumDuration =
     (if length mfc = 0 then []
      else
        (let minSlots = max 1 (minimumDuration div int SLOT_MINUTES)
         in fold (\<lambda>d blocks.
                    snd (fold (scan_slot common_cells minSlots d) [0..<SLOT_COUNT + 1]
                           (- 1, blocks)))
                 [0..<DAY_COUNT] []))"

section \<open>Notions used to state the properties\<close>

text \<open>A record is a genuine set when every own entry carries the literal \<open>true\<close>.\<close>

definition genuine :: "cells \<Rightarrow> bool" where
  "genuine c = list_all (\<lambda>entry. snd entry = JBool True) c"

text \<open>The set a record stands for: its own keys.\<close>

definition key_set :: "(string \<times> 'v) list \<Rightarrow> string set" where
  "key_set c = fst ` set c"

text \<open>No own key shadows a member of \<open>Object.prototype\<close>; every slot key is such a key
  (\<open>keyFor_not_inherited\<close> below).\<close>

definition plain_keys :: "cells \<Rightarrow> bool" where
  "plain_keys c = list_all (\<lambda>key. \<not> inherited key) (map fst c)"

text \<open>A run of edits, each a call of \<open>paintCell\<close>.\<close>

definition paintCells :: "(nat \<times> nat \<times> bool) list \<Rightarrow> app_state \<Rightarrow> app_state" where
  "paintCells edits st = fold (\<lambda>(d, s, v). paintCell d s v) edits st"

text \<open>A run of pointer-move events, each with the hit test of its moment.\<close>

definition pointerMoves ::
  "((jsnum \<Rightarrow> jsnum \<Rightarrow> (nat \<times> nat) option) \<times> pointer_event) list \<Rightarrow> app_state \<Rightarrow> app_state" where
  "pointerMoves moves st = fold (\<lambda>(h, e). handlePointerMove h e) moves st"

text \<open>The displacement along one axis as \<open>handlePointerMove\<close> computes it,
  \<open>Math.abs(a - b)\<close> in double arithmetic.\<close>

definition displacement :: "jsnum \<Rightarrow> jsnum \<Rightarrow> jsnum" where
  "displacement a b = fabs (fsub a b)"

text \<open>Whether slot \<open>s\<close> of day \<open>d\<close> is common in a record of common cells.\<close>

definition common_at :: "cells \<Rightarrow> nat \<Rightarrow> nat \<Rightarrow> bool" where
  "common_at common_cells d s = (s < SLOT_COUNT \<and> truthy_prop common_cells (keyFor d s))"

text \<open>\<open>[a, b)\<close> is a maximal run of slots satisfying \<open>c\<close> within the day's \<open>n\<close> slots.\<close>

definition maximal_run :: "(nat \<Rightarrow> bool) \<Rightarrow> nat \<Rightarrow> nat \<Rightarrow> nat \<Rightarrow> bool" where
  "maximal_run c n a b =
     (a < b \<and> b \<le> n \<and> (\<forall>s. a \<le> s \<and> s < b \<longrightarrow> c s) \<and>
      (a = 0 \<or> \<not> c (a - 1)) \<and> (b = n \<or> \<not> c b))"

text \<open>The block that \<open>recommendedBlocks\<close> pushes for the run \<open>[a, b)\<close> of day \<open>d\<close>.\<close>

definition block_of :: "nat \<Rightarrow> nat \<Rightarrow> nat \<Rightarrow> TimeBlock" where
  "block_of d a b =
     \<lparr> day = d, startSlot = int a, endSlot = int b,
       minutes = (int b - int a) * int SLOT_MINUTES \<rparr>"

text \<open>\<open>[a, b)\<close> is a run of slots satisfying \<open>c\<close> that starts at a boundary and is ended
  by slot \<open>b\<close>.\<close>

definition closed_run :: "(nat \<Rightarrow> bool) \<Rightarrow> nat \<Rightarrow> nat \<Rightarrow> bool" where
  "closed_run c a b =
     (a < b \<and> (\<forall>s. a \<le> s \<and> s < b \<longrightarrow> c s) \<and> (a = 0 \<or> \<not> c (a - 1)) \<and> \<not> c b)"

text \<open>
  The invariant of the inner loop before slot \<open>j\<close>: \<open>start\<close> is the sentinel when the
  previous slot is not common, else the first slot of the run that reaches \<open>j\<close>; the
  blocks are the initial ones and those of the long enough runs ended before \<open>j\<close>.
\<close>

definition scan_inv ::
  "(nat \<Rightarrow> bool) \<Rightarrow> int \<Rightarrow> nat \<Rightarrow> TimeBlock set \<Rightarrow> nat \<Rightarrow> int \<times> TimeBlock list \<Rightarrow> bool" where
  "scan_inv c minSlots d init j acc =
     (((fst acc = - 1 \<and> (j = 0 \<or> \<not> c (j - 1))) \<or>
       (\<exists>a. fst acc = int a \<and> a < j \<and> (\<forall>s. a \<le> s \<and> s < j \<longrightarrow> c s) \<and>
            (a = 0 \<or> \<not> c (a - 1)))) \<and>
      set (snd acc) =
        init \<union> {block_of d a b | a b. closed_run c a b \<and> b < j \<and> minSlots \<le> int b - int a})"

text \<open>The order in which the scan pushes blocks: by day, then by end slot.\<close>

definition block_before :: "TimeBlock \<Rightarrow> TimeBlock \<Rightarrow> bool" where
  "block_before x y = (day x < day y \<or> (day x = day y \<and> endSlot x < endSlot y))"

subsection \<open>An example session\<close>

definition member_me :: TeamMember where
  "member_me =
     \<lparr> member_id = ''m1'', team_code = TEAM_CODE, user_id = ''u1'', display_name = ''Kim'',
       cells = [(''0-2'', JBool True), (''0-3'', JBool True)],
       updated_at = Some ''2026-03-02T10:00:00.000Z'', last_editor = Some ''Kim'',
       is_stale = False, is_legacy_unavailable_mode = False \<rparr>"

definition member_other :: TeamMember where
  "member_other =
     \<lparr> member_id = ''m2'', team_code = TEAM_CODE, user_id = ''u2'', display_name = ''Lee'',
       cells = [(''0-3'', JBool True), (''1-0'', JBool True)],
       updated_at = Some ''2026-03-02T11:00:00.000Z'', last_editor = Some ''Lee'',
       is_stale = False, is_legacy_unavailable_mode = False \<rparr>"

definition session :: app_state where
  "session =
     \<lparr> has_client = True, userId = ''u1'', isMobileViewport = False,
       mobileEditEnabled = False, members = [member_other, member_me],
       selectedMemberId = ''m1'',
       draftCells = [(''0-3'', JBool True), (''0-2'', JBool True)],
       drawing = \<lparr> d_active = False, d_value = True \<rparr>, paintMode = Smart,
       touchGesture = idle_gesture, statusMessage = StatusConnected,
       writes = [], timers = [] \<rparr>"

text \<open>A row as the store returns it, and a parser that knows its timestamp.\<close>

definition example_row :: jsval where
  "example_row =
     JObj [(''id'', JStr ''m1''), (''team_code'', JStr ''online-ministry-team''),
           (''user_id'', JStr ''u1''), (''display_name'', JStr ''Kim''),
           (''cells'', JObj [(''0-2'', JBool True), (''0-3'', JBool True)]),
           (''last_editor'', JStr ''Kim''),
           (''updated_at'', JStr ''2026-03-02T10:00:00.000Z'')]"

definition example_parse :: "string \<Rightarrow> int option" where
  "example_parse s =
     (if s = ''2026-03-02T10:00:00.000Z'' then Some 1772445600000 else None)"

text \<open>A touch that goes down on cell \<open>(0, 5)\<close> at \<open>(100, 100)\<close>, and where it may move.\<close>

definition touch_down :: pointer_event where
  "touch_down =
     \<lparr> pointerId = 1, is_touch = True, clientX = Fin 100, clientY = Fin 100 \<rparr>"

definition move_vertical :: pointer_event where
  "move_vertical =
     \<lparr> pointerId = 1, is_touch = True, clientX = Fin 100, clientY = Fin 112 \<rparr>"

definition move_horizontal :: pointer_event where
  "move_horizontal =
     \<lparr> pointerId = 1, is_touch = True, clientX = Fin 112, clientY = Fin 100 \<rparr>"

definition move_slight :: pointer_event where
  "move_slight =
     \<lparr> pointerId = 1, is_touch = True, clientX = Fin 104, clientY = Fin 97 \<rparr>"

definition hit_0_6 :: "jsnum \<Rightarrow> jsnum \<Rightarrow> (nat \<times> nat) option" where
  "hit_0_6 x y = Some (0, 6)"

definition pressed :: app_state where
  "pressed = onPointerDown 0 5 touch_down session"

text \<open>The session while the local user's draft differs from the committed cells.\<close>

definition editing :: app_state where
  "editing = session\<lparr>draftCells := [(''0-3'', JBool True), (''0-5'', JBool True)]\<rparr>"

text \<open>Common cells of one day: slots 2, 3, 4, 7, 8 and the lone slot 10.\<close>

definition day_common :: cells where
  "day_common =
     [(''0-2'', JBool True), (''0-3'', JBool True), (''0-4'', JBool True),
      (''0-7'', JBool True), (''0-8'', JBool True), (''0-10'', JBool True)]"

text \<open>The same press with the row of the other member selected before the finger
  lifts.\<close>

definition deselected :: app_state where
  "deselected = selectMember ''m2'' pressed"

text \<open>Touches at fractional coordinates: a press at the origin followed by a move to
  \<open>(16.8, 14)\<close>, and a press at \<open>(0.2, 0)\<close> followed by a move to \<open>(10.2, 0)\<close>.\<close>

definition touch_origin :: pointer_event where
  "touch_origin = \<lparr> pointerId = 1, is_touch = True, clientX = Fin 0, clientY = Fin 0 \<rparr>"

definition move_ratio_tie :: pointer_event where
  "move_ratio_tie =
     \<lparr> pointerId = 1, is_touch = True, clientX = to_double (168 / 10), clientY = Fin 14 \<rparr>"

definition touch_fraction :: pointer_event where
  "touch_fraction =
     \<lparr> pointerId = 1, is_touch = True, clientX = to_double (2 / 10), clientY = Fin 0 \<rparr>"

definition move_fraction :: pointer_event where
  "move_fraction =
     \<lparr> pointerId = 1, is_touch = True, clientX = to_double (102 / 10), clientY = Fin 0 \<rparr>"

definition pressed_origin :: app_state where
  "pressed_origin = onPointerDown 0 5 touch_origin session"

definition pressed_fraction :: app_state where
  "pressed_fraction = onPointerDown 0 5 touch_fraction session"

text \<open>The local user's row as the store returns it, holding the given cells.\<close>

definition own_row :: "jsobject \<Rightarrow> jsval" where
  "own_row stored =
     JObj [(''id'', JStr ''m1''), (''team_code'', JStr ''online-ministry-team''),
           (''user_id'', JStr ''u1''), (''display_name'', JStr ''Kim''),
           (''cells'', JObj stored), (''last_editor'', JStr ''Kim''),
           (''updated_at'', JStr ''2026-03-02T10:00:00.000Z'')]"

text \<open>The session after a fetch that finds the own row stored with a key that names a
  member of \<open>Object.prototype\<close>.\<close>

definition shadowed :: app_state where
  "shadowed =
     fetchMembers example_parse 1772290800000 None
       (Some [own_row [(''constructor'', JBool True), (''0-2'', JBool True)]]) session"

text \<open>The session after a fetch that finds the own row stored with only such a key,
  reconciled, and then a second fetch that finds the row changed.\<close>

definition reconciled_once :: app_state where
  "reconciled_once =
     reconcileDraft
       (fetchMembers example_parse 1772290800000 None
          (Some [own_row [(''constructor'', JBool True)]]) session)"

definition refetched :: app_state where
  "refetched =
     fetchMembers example_parse 1772290800000 None
       (Some [own_row [(''0-0'', JBool True)]]) reconciled_once"

section \<open>Slot keys\<close>

lemma numstr_nonempty: "numstr n \<noteq> []"
  by (subst numstr.simps) simp

lemma digit_in: "digit n \<in> set ''0123456789''"
  unfolding digit_def by (rule nth_mem) simp

lemma hd_numstr: "hd (numstr n) \<in> set ''0123456789''"
proof (induction n rule: numstr.induct)
  case (1 n)
  show ?case
  proof (cases "n < 10")
    case True
    then show ?thesis by (subst numstr.simps) (simp add: digit_in del: set_simps)
  next
    case False
    with 1 show ?thesis
      by (subst numstr.simps) (simp add: numstr_nonempty del: set_simps)
  qed
qed

lemma hd_keyFor: "hd (keyFor d s) \<in> set ''0123456789''"
  by (simp add: keyFor_def numstr_nonempty hd_numstr del: set_simps)

text \<open>A slot key begins with a digit, so it never reads a member of the prototype.\<close>

lemma keyFor_not_inherited: "\<not> inherited (keyFor d s)"
proof
  assume "inherited (keyFor d s)"
  then have "hd (keyFor d s) \<in> hd ` set Object_prototype_names"
    unfolding inherited_def by (rule imageI)
  with hd_keyFor [of d s] show False
    by (auto simp: Object_prototype_names_def)
qed

lemma keyFor_not_proto: "keyFor d s \<noteq> ''__proto__''"
  using keyFor_not_inherited [of d s]
  by (auto simp: inherited_def Object_prototype_names_def)

lemma key_0_2: "keyFor 0 2 = ''0-2''"
  by (simp add: keyFor_def numstr.simps digit_def)

section \<open>Edits of the draft buffer\<close>

lemma paint_updater_idem:
  "paint_updater k v (paint_updater k v c) = paint_updater k v c"
proof (cases "truthy_prop c k = v")
  case True
  then show ?thesis by (simp add: paint_updater_def)
next
  case False
  show ?thesis
  proof (cases v)
    case True
    with False have nt: "\<not> truthy_prop c k" by simp
    then have ni: "\<not> (k = ''__proto__'' \<and> map_of c k = None)"
      by (auto simp: truthy_prop_def inherited_def Object_prototype_names_def
          split: option.splits)
    then have "truthy_prop (assign c k (JBool True)) k"
      by (auto simp: assign_def truthy_prop_def update_conv')
    with True nt show ?thesis by (simp add: paint_updater_def)
  next
    case False
    then show ?thesis
      by (simp add: paint_updater_def Let_def delete_idem)
  qed
qed

lemma enabled_draft_update [simp]:
  "isCellInputEnabled (st\<lparr>draftCells := c\<rparr>) = isCellInputEnabled st"
  by (simp add: isCellInputEnabled_def canEditSelected_def selectedMember_def
      resolvedSelectedMemberId_def myMember_def cong: option.case_cong list.case_cong)

lemma session_enabled: "isCellInputEnabled session"
  by (simp add: isCellInputEnabled_def canEditSelected_def selectedMember_def
      resolvedSelectedMemberId_def myMember_def session_def member_me_def member_other_def)

text \<open>
  C3. For every day, slot, value and state of the draft buffer, \<open>paintCell\<close> applied twice
  in a row gives the state that one application gives; and when the slot's membership in
  the buffer already equals the value, the state is left as it was.
\<close>

theorem paintCell_idempotent:
  "paintCell d s v (paintCell d s v st) = paintCell d s v st \<and>
   (truthy_prop (draftCells st) (keyFor d s) = v \<longrightarrow> paintCell d s v st = st)"
proof -
  have "paintCell d s v (paintCell d s v st) = paintCell d s v st"
    by (simp add: paintCell_def paint_updater_idem)
  moreover have "truthy_prop (draftCells st) (keyFor d s) = v \<longrightarrow> paintCell d s v st = st"
    by (simp add: paintCell_def paint_updater_def)
  ultimately show ?thesis by simp
qed

theorem paintCell_idempotent_witness:
  "truthy_prop (draftCells session) (keyFor 0 2) = True \<and>
   paintCell 0 2 True session = session \<and>
   draftCells (paintCell 0 2 False session) = [(''0-3'', JBool True)] \<and>
   paintCell 0 2 False (paintCell 0 2 False session) = paintCell 0 2 False session"
proof -
  have h: "truthy_prop (draftCells session) (keyFor 0 2) = True"
    by (simp add: key_0_2 session_def truthy_prop_def)
  have e: "draftCells (paintCell 0 2 False session) = [(''0-3'', JBool True)]"
    by (simp add: paintCell_def session_enabled paint_updater_def key_0_2 truthy_prop_def)
       (simp add: session_def)
  from h e paintCell_idempotent [of 0 2 True session]
    paintCell_idempotent [of 0 2 False session]
  show ?thesis by blast
qed

section \<open>Ownership gating\<close>

text \<open>
  C9. For every day, slot and value, \<open>paintCell\<close> called while the selected member is not
  the local user's own row, or while the mobile viewport has its edit mode off, returns
  the state it was given: draft buffer, members and everything else are unchanged, and
  the call has no error outcome.
\<close>

theorem paintCell_disabled_noop:
  assumes "(case selectedMember st of None \<Rightarrow> True | Some m \<Rightarrow> user_id m \<noteq> userId st) \<or>
           (isMobileViewport st \<and> \<not> mobileEditEnabled st)"
  shows "paintCell d s v st = st"
proof -
  from assms have "\<not> isCellInputEnabled st"
    by (auto simp: isCellInputEnabled_def canEditSelected_def split: option.splits)
  then show ?thesis by (simp add: paintCell_def)
qed

theorem paintCell_disabled_noop_witness:
  "(case selectedMember (session\<lparr>selectedMemberId := ''m2''\<rparr>) of
      None \<Rightarrow> True
    | Some m \<Rightarrow> user_id m \<noteq> userId (session\<lparr>selectedMemberId := ''m2''\<rparr>)) \<and>
   paintCell 0 5 True (session\<lparr>selectedMemberId := ''m2''\<rparr>) =
     session\<lparr>selectedMemberId := ''m2''\<rparr> \<and>
   isMobileViewport (session\<lparr>isMobileViewport := True\<rparr>) \<and>
   \<not> mobileEditEnabled (session\<lparr>isMobileViewport := True\<rparr>) \<and>
   paintCell 0 5 True (session\<lparr>isMobileViewport := True\<rparr>) =
     session\<lparr>isMobileViewport := True\<rparr>"
proof -
  have h1: "(case selectedMember (session\<lparr>selectedMemberId := ''m2''\<rparr>) of
      None \<Rightarrow> True
    | Some m \<Rightarrow> user_id m \<noteq> userId (session\<lparr>selectedMemberId := ''m2''\<rparr>))"
    by (simp add: selectedMember_def resolvedSelectedMemberId_def session_def
        member_me_def member_other_def)
  have h2: "isMobileViewport (session\<lparr>isMobileViewport := True\<rparr>) \<and>
     \<not> mobileEditEnabled (session\<lparr>isMobileViewport := True\<rparr>)"
    by (simp add: session_def)
  from h1 h2
    paintCell_disabled_noop [of "session\<lparr>selectedMemberId := ''m2''\<rparr>" 0 5 True]
    paintCell_disabled_noop [of "session\<lparr>isMobileViewport := True\<rparr>" 0 5 True]
  show ?thesis by blast
qed

section \<open>Cell records are sets\<close>

lemma genuine_assign: "genuine c \<Longrightarrow> genuine (assign c k (JBool True))"
proof -
  have "genuine c \<Longrightarrow> genuine (AList.update k (JBool True) c)"
    by (induction c) (auto simp: genuine_def)
  then show "genuine c \<Longrightarrow> genuine (assign c k (JBool True))"
    by (simp add: assign_def)
qed

lemma genuine_delete: "genuine c \<Longrightarrow> genuine (AList.delete k c)"
  by (induction c) (auto simp: genuine_def)

lemma genuine_paint_updater: "genuine c \<Longrightarrow> genuine (paint_updater k v c)"
  by (simp add: paint_updater_def Let_def genuine_assign genuine_delete)

lemma genuine_sanitize_fold:
  "genuine acc \<Longrightarrow>
   genuine (fold (\<lambda>(key, marked) result.
                    if truthy marked then assign result key (JBool True) else result) es acc)"
  by (induction es arbitrary: acc) (auto simp: genuine_assign)

lemma genuine_sanitizeCells: "genuine (sanitizeCells v)"
proof -
  have "genuine []" by (simp add: genuine_def)
  then show ?thesis
    unfolding sanitizeCells_def using genuine_sanitize_fold by simp
qed

lemma key_set_assign: "key_set (assign c k v) \<subseteq> insert k (key_set c)"
  by (auto simp: assign_def key_set_def dom_update)

lemma keys_sanitize_fold:
  "k \<in> key_set (fold (\<lambda>(key, marked) result.
                    if truthy marked then assign result key (JBool True) else result) es acc)
   \<Longrightarrow> k \<in> key_set acc \<or> (\<exists>marked. (k, marked) \<in> set es \<and> truthy marked)"
proof (induction es arbitrary: acc)
  case Nil
  then show ?case by simp
next
  case (Cons e es)
  obtain key marked where e: "e = (key, marked)" by (cases e)
  show ?case
  proof (cases "truthy marked")
    case True
    with Cons.prems e Cons.IH [of "assign acc key (JBool True)"]
    have "k \<in> key_set (assign acc key (JBool True)) \<or>
          (\<exists>marked. (k, marked) \<in> set es \<and> truthy marked)" by simp
    with key_set_assign [of acc key "JBool True"] True e show ?thesis by auto
  next
    case False
    with Cons.prems e Cons.IH [of acc] show ?thesis by auto
  qed
qed

lemma sanitizeCells_keeps_truthy:
  "k \<in> key_set (sanitizeCells v) \<Longrightarrow> \<exists>marked. (k, marked) \<in> set (entries v) \<and> truthy marked"
proof -
  assume a: "k \<in> key_set (sanitizeCells v)"
  show ?thesis
  proof (cases "\<not> truthy v \<or> \<not> (case v of JObj _ \<Rightarrow> True | JArr _ \<Rightarrow> True | _ \<Rightarrow> False)")
    case True
    with a show ?thesis by (simp add: sanitizeCells_def key_set_def)
  next
    case False
    with a have "k \<in> key_set (fold (\<lambda>(key, marked) result.
                    if truthy marked then assign result key (JBool True) else result)
                    (entries v) [])"
      by (simp add: sanitizeCells_def)
    from keys_sanitize_fold [OF this] show ?thesis by (simp add: key_set_def)
  qed
qed

lemma genuine_truthy_prop:
  "genuine c \<Longrightarrow> \<not> inherited k \<Longrightarrow> truthy_prop c k \<longleftrightarrow> k \<in> key_set c"
proof -
  assume g: "genuine c" and ni: "\<not> inherited k"
  show ?thesis
  proof (cases "map_of c k")
    case None
    moreover from None have "k \<notin> fst ` set c" by (simp add: map_of_eq_None_iff)
    ultimately show ?thesis using ni
      by (simp add: truthy_prop_def key_set_def)
  next
    case (Some v)
    then have m: "(k, v) \<in> set c" by (rule map_of_SomeD)
    with g have "v = JBool True" by (auto simp: genuine_def list_all_iff)
    with Some m show ?thesis
      by (force simp: truthy_prop_def key_set_def)
  qed
qed

lemma paint_false_removes:
  "genuine c \<Longrightarrow> \<not> inherited k \<Longrightarrow> k \<notin> key_set (paint_updater k False c)"
proof -
  assume g: "genuine c" and ni: "\<not> inherited k"
  show ?thesis
  proof (cases "truthy_prop c k")
    case True
    then show ?thesis
      using delete_notin_dom [of k c] by (simp add: paint_updater_def key_set_def)
  next
    case False
    with genuine_truthy_prop [OF g ni] show ?thesis by (simp add: paint_updater_def)
  qed
qed

lemma genuine_paintCell: "genuine (draftCells st) \<Longrightarrow> genuine (draftCells (paintCell d s v st))"
  by (simp add: paintCell_def genuine_paint_updater)

lemma genuine_paintCells: "genuine (draftCells st) \<Longrightarrow> genuine (draftCells (paintCells edits st))"
proof (induction edits arbitrary: st)
  case Nil
  then show ?case by (simp add: paintCells_def)
next
  case (Cons e edits)
  obtain d s v where e: "e = (d, s, v)" by (cases e)
  from Cons.prems have "genuine (draftCells (paintCell d s v st))" by (rule genuine_paintCell)
  from Cons.IH [OF this] e show ?case by (simp add: paintCells_def)
qed

lemma draft_persistMyCells [simp]: "draftCells (persistMyCells now err c st) = draftCells st"
  by (simp add: persistMyCells_def Let_def split: option.splits)

lemma myMember_draft_update [simp]: "myMember (st\<lparr>draftCells := c\<rparr>) = myMember st"
  by (simp add: myMember_def)

lemma clearMyCells_draft: "myMember st \<noteq> None \<Longrightarrow> draftCells (clearMyCells now err st) = []"
  by (auto simp: clearMyCells_def)

lemma genuine_toMember: "genuine (cells (toMember row))"
  by (simp add: toMember_def Let_def genuine_sanitizeCells) (simp add: genuine_def)

lemma genuine_presentRow: "genuine (cells (presentRow parse wk row))"
  by (simp add: presentRow_def Let_def genuine_toMember) (simp add: genuine_def)

text \<open>
  C10. Every cells record the program builds holds only entries whose value is the literal
  \<open>true\<close>: the result of \<open>sanitizeCells\<close> (whose keys all come from truthy entries of
  its argument), the cells of a presented member, the initial empty buffer, the draft
  buffer after any run of \<open>paintCell\<close> calls, and the cleared buffer. Painting
  \<open>false\<close> deletes the key instead of storing a falsy value, so on such a record a slot
  reads as marked exactly when its key is present.
\<close>

theorem cells_records_are_sets:
  "genuine (sanitizeCells v) \<and>
   (\<forall>k \<in> key_set (sanitizeCells v). \<exists>marked. (k, marked) \<in> set (entries v) \<and> truthy marked) \<and>
   genuine (cells (presentRow parse wk row)) \<and>
   genuine [] \<and>
   (genuine (draftCells st) \<longrightarrow> genuine (draftCells (paintCells edits st))) \<and>
   (genuine (draftCells st) \<and> isCellInputEnabled st \<longrightarrow>
      keyFor d s \<notin> key_set (draftCells (paintCell d s False st))) \<and>
   (myMember st \<noteq> None \<longrightarrow> draftCells (clearMyCells now err st) = []) \<and>
   (genuine c \<longrightarrow> (truthy_prop c (keyFor d s) \<longleftrightarrow> keyFor d s \<in> key_set c))"
proof -
  have "genuine (draftCells st) \<and> isCellInputEnabled st \<longrightarrow>
      keyFor d s \<notin> key_set (draftCells (paintCell d s False st))"
    by (simp add: paintCell_def paint_false_removes keyFor_not_inherited)
  moreover have "genuine []" by (simp add: genuine_def)
  ultimately show ?thesis
    using genuine_sanitizeCells sanitizeCells_keeps_truthy genuine_presentRow
      genuine_paintCells clearMyCells_draft genuine_truthy_prop keyFor_not_inherited
    by blast
qed


lemma session_myMember: "myMember session = Some member_me"
  by (simp add: myMember_def session_def member_me_def member_other_def)

theorem cells_records_are_sets_witness:
  "sanitizeCells (JObj [(''0-1'', JBool True), (''0-2'', JBool False), (''0-4'', JNum 1)]) =
     [(''0-1'', JBool True), (''0-4'', JBool True)] \<and>
   ''0-1'' \<in> key_set (sanitizeCells
      (JObj [(''0-1'', JBool True), (''0-2'', JBool False), (''0-4'', JNum 1)])) \<and>
   (\<exists>marked. (''0-1'', marked) \<in> set (entries
      (JObj [(''0-1'', JBool True), (''0-2'', JBool False), (''0-4'', JNum 1)])) \<and>
      truthy marked) \<and>
   genuine (draftCells session) \<and>
   genuine (draftCells (paintCells [(0, 5, True), (0, 2, False)] session)) \<and>
   isCellInputEnabled session \<and>
   keyFor 0 2 \<notin> key_set (draftCells (paintCell 0 2 False session)) \<and>
   myMember session \<noteq> None \<and>
   draftCells (clearMyCells ''2026-03-03T09:00:00.000Z'' None session) = [] \<and>
   (truthy_prop (draftCells session) (keyFor 0 2) \<longleftrightarrow>
      keyFor 0 2 \<in> key_set (draftCells session))"
proof -
  let ?v = "JObj [(''0-1'', JBool True), (''0-2'', JBool False), (''0-4'', JNum 1)]"
  have e: "sanitizeCells ?v = [(''0-1'', JBool True), (''0-4'', JBool True)]"
    by (simp add: sanitizeCells_def assign_def)
  have k: "''0-1'' \<in> key_set (sanitizeCells ?v)"
    by (simp add: e key_set_def)
  have g: "genuine (draftCells session)"
    by (simp add: session_def genuine_def)
  have m: "myMember session \<noteq> None"
    by (simp add: session_myMember)
  from e k g m session_enabled
    cells_records_are_sets [where v = ?v and st = session and d = 0 and s = 2
      and edits = "[(0, 5, True), (0, 2, False)]" and c = "draftCells session"
      and now = "''2026-03-03T09:00:00.000Z''" and err = None]
  show ?thesis by blast
qed

section \<open>Set equality of cell records\<close>

lemma plain_keys_iff: "plain_keys c \<longleftrightarrow> (\<forall>k \<in> key_set c. \<not> inherited k)"
  by (simp add: plain_keys_def key_set_def list_all_iff)

lemma key_set_card: "distinct (map fst c) \<Longrightarrow> card (key_set c) = length c"
proof -
  assume "distinct (map fst c)"
  then have "card (set (map fst c)) = length (map fst c)" by (rule distinct_card)
  then show ?thesis by (simp add: key_set_def)
qed

lemma sameCells_iff:
  assumes dl: "distinct (map fst left)" and dr: "distinct (map fst right)"
    and gr: "genuine right" and pl: "plain_keys left"
  shows "sameCells left right \<longleftrightarrow> key_set left = key_set right"
proof -
  have reads: "\<And>k. k \<in> key_set left \<Longrightarrow> truthy_prop right k \<longleftrightarrow> k \<in> key_set right"
    using gr pl by (simp add: genuine_truthy_prop plain_keys_iff)
  have unfold: "sameCells left right \<longleftrightarrow>
        length left = length right \<and> (\<forall>k \<in> key_set left. truthy_prop right k)"
    by (auto simp: sameCells_def Let_def list_all_iff key_set_def)
  show ?thesis
  proof
    assume "sameCells left right"
    with unfold reads have len: "length left = length right"
      and sub: "key_set left \<subseteq> key_set right" by auto
    from len have "card (key_set left) = card (key_set right)"
      by (simp add: key_set_card dl dr)
    moreover have "finite (key_set right)" by (simp add: key_set_def)
    ultimately show "key_set left = key_set right"
      using sub by (simp add: card_subset_eq)
  next
    assume eq: "key_set left = key_set right"
    then have "card (key_set left) = card (key_set right)" by simp
    then have "length left = length right" by (simp add: key_set_card dl dr)
    with eq unfold reads show "sameCells left right" by auto
  qed
qed

text \<open>Equal key sets always compare as the same.\<close>

lemma sameCells_if_equal:
  assumes dl: "distinct (map fst left)" and dr: "distinct (map fst right)"
    and gr: "genuine right" and eq: "key_set left = key_set right"
  shows "sameCells left right"
proof -
  from eq have "card (key_set left) = card (key_set right)" by simp
  then have len: "length left = length right" by (simp add: key_set_card dl dr)
  have "truthy_prop right k" if "k \<in> key_set right" for k
  proof -
    from that obtain v where "(k, v) \<in> set right" by (auto simp: key_set_def)
    moreover from this gr have "v = JBool True" by (auto simp: genuine_def list_all_iff)
    ultimately have "map_of right k = Some (JBool True)" using dr by simp
    then show ?thesis by (simp add: truthy_prop_def)
  qed
  with eq len show ?thesis
    by (auto simp: sameCells_def Let_def list_all_iff key_set_def)
qed

text \<open>
  The comparison reads the right record through the prototype chain, so a left key that
  names a member of \<open>Object.prototype\<close> passes without being a key of the right
  record: records with different keys can compare as the same.
\<close>

lemma sameCells_prototype_name:
  "sameCells [(''constructor'', JBool True)] [(''0-0'', JBool True)]"
  by (simp add: sameCells_def truthy_prop_def inherited_def Object_prototype_names_def)

text \<open>
  The records the program builds stay within these bounds: sanitising and painting keep
  the keys distinct, and painting a slot key keeps the keys plain.
\<close>

lemma distinct_assign: "distinct (map fst c) \<Longrightarrow> distinct (map fst (assign c k v))"
  by (simp add: assign_def distinct_update)

lemma distinct_sanitize_fold:
  "distinct (map fst acc) \<Longrightarrow>
   distinct (map fst (fold (\<lambda>(key, marked) result.
                    if truthy marked then assign result key (JBool True) else result) es acc))"
  by (induction es arbitrary: acc) (auto simp: distinct_assign)

lemma distinct_sanitizeCells: "distinct (map fst (sanitizeCells v))"
  unfolding sanitizeCells_def using distinct_sanitize_fold [of "[]"] by simp

lemma distinct_paint_updater:
  "distinct (map fst c) \<Longrightarrow> distinct (map fst (paint_updater k v c))"
  by (simp add: paint_updater_def Let_def distinct_assign distinct_delete)

lemma plain_keys_paint_updater:
  "plain_keys c \<Longrightarrow> plain_keys (paint_updater (keyFor d s) v c)"
proof -
  assume p: "plain_keys c"
  have "key_set (paint_updater (keyFor d s) v c) \<subseteq> insert (keyFor d s) (key_set c)"
    using key_set_assign [of c "keyFor d s" "JBool True"] dom_delete_subset [of "keyFor d s" c]
    by (auto simp: paint_updater_def Let_def key_set_def)
  with p keyFor_not_inherited [of d s] show ?thesis
    unfolding plain_keys_iff by blast
qed

lemma session_facts:
  "has_client session" "userId session \<noteq> []" "\<not> d_active (drawing session)"
  "\<not> g_active (touchGesture session)"
  "draftCells session = [(''0-3'', JBool True), (''0-2'', JBool True)]"
  "writes session = []" "userId session = ''u1''"
  by (simp_all add: session_def idle_gesture_def)

lemma member_me_facts:
  "cells member_me = [(''0-2'', JBool True), (''0-3'', JBool True)]"
  "display_name member_me = ''Kim''"
  by (simp_all add: member_me_def)

section \<open>Commit\<close>

lemma own_row_presented:
  "presentRow example_parse 1772290800000 (own_row stored) =
     member_me\<lparr>cells := sanitizeCells (JObj stored)\<rparr>"
  by (simp add: presentRow_def toMember_def own_row_def field_def string_or_def
      string_or_null_def member_me_def TEAM_CODE_def isStaleWeek_def example_parse_def)

text \<open>On equal key sets the commit issues no write, in whatever order the keys stand.\<close>

lemma persistMyCells_equal_sets_no_write:
  assumes "distinct (map fst (cells m))" and "distinct (map fst buffer)" and "genuine buffer"
    and "key_set buffer = key_set (cells m)" and "myMember st = Some m"
  shows "persistMyCells now err buffer st = st"
proof -
  from assms(1-4) have "sameCells (cells m) buffer" by (intro sameCells_if_equal) simp_all
  with assms(5) show ?thesis by (simp add: persistMyCells_def)
qed

text \<open>Where the committed record has plain keys, the commit writes exactly when the key
  sets differ.\<close>

lemma persistMyCells_plain_keys:
  assumes "myMember st = Some m" and "has_client st" and "userId st \<noteq> []"
    and "distinct (map fst (cells m))" and "plain_keys (cells m)"
    and "distinct (map fst buffer)" and "genuine buffer"
  shows "(key_set buffer = key_set (cells m) \<longrightarrow> persistMyCells now err buffer st = st) \<and>
         (key_set buffer \<noteq> key_set (cells m) \<longrightarrow>
            writes (persistMyCells now err buffer st) =
              writes st @ [\<lparr> upd_team_code = TEAM_CODE, upd_user_id = userId st,
                             upd_cells = buffer, upd_last_editor = display_name m,
                             upd_updated_at = now \<rparr>])"
proof -
  from assms have "sameCells (cells m) buffer \<longleftrightarrow> key_set (cells m) = key_set buffer"
    by (simp add: sameCells_iff)
  with assms(1-3) show ?thesis
    by (auto simp: persistMyCells_def Let_def split: option.splits)
qed

lemma shadowed_facts:
  "members shadowed =
     [member_me\<lparr>cells := [(''constructor'', JBool True), (''0-2'', JBool True)]\<rparr>]"
  "has_client shadowed" "userId shadowed = ''u1''" "writes shadowed = []"
  "draftCells shadowed = [(''0-3'', JBool True), (''0-2'', JBool True)]"
  by (simp_all add: shadowed_def fetchMembers_def session_facts own_row_presented
      sanitizeCells_def assign_def)

text \<open>
  C4. The commit is to skip the write exactly when the buffer is set-equal to the committed
  cells. Here the own row is stored with the cells \<open>constructor\<close> and \<open>0-2\<close> and the
  buffer holds \<open>0-3\<close> and \<open>0-2\<close>: the two are not set-equal, yet \<open>persistMyCells\<close>
  returns the state as it is, without the update. Both records have two keys, and
  \<open>sameCells\<close> reads \<open>constructor\<close> in the buffer through the prototype chain.
\<close>

theorem persistMyCells_inherited_key_skips_write:
  "myMember shadowed =
     Some (member_me\<lparr>cells := [(''constructor'', JBool True), (''0-2'', JBool True)]\<rparr>) \<and>
   has_client shadowed \<and> userId shadowed \<noteq> [] \<and>
   draftCells shadowed = [(''0-3'', JBool True), (''0-2'', JBool True)] \<and>
   key_set (draftCells shadowed) \<noteq>
     key_set [(''constructor'', JBool True), (''0-2'', JBool True)] \<and>
   persistMyCells ''2026-03-03T09:00:00.000Z'' None (draftCells shadowed) shadowed = shadowed \<and>
   writes (persistMyCells ''2026-03-03T09:00:00.000Z'' None (draftCells shadowed) shadowed) = []"
proof -
  have m: "myMember shadowed =
     Some (member_me\<lparr>cells := [(''constructor'', JBool True), (''0-2'', JBool True)]\<rparr>)"
    by (simp add: myMember_def shadowed_facts) (simp add: member_me_def)
  have ne: "key_set (draftCells shadowed) \<noteq>
     key_set [(''constructor'', JBool True), (''0-2'', JBool True)]"
    by (simp add: shadowed_facts key_set_def doubleton_eq_iff)
  have same: "sameCells [(''constructor'', JBool True), (''0-2'', JBool True)]
      (draftCells shadowed)"
    by (simp add: shadowed_facts sameCells_def truthy_prop_def inherited_def
        Object_prototype_names_def)
  then have p: "persistMyCells ''2026-03-03T09:00:00.000Z'' None (draftCells shadowed) shadowed =
      shadowed"
    by (simp add: persistMyCells_def m)
  from m ne p shadowed_facts show ?thesis by simp
qed

theorem persistMyCells_inherited_key_skips_write_witness:
  "key_set (draftCells shadowed) = {''0-3'', ''0-2''} \<and>
   writes (persistMyCells ''2026-03-03T09:00:00.000Z'' None
             [(''0-3'', JBool True), (''0-2'', JBool True)] shadowed) = []"
proof -
  note t = persistMyCells_inherited_key_skips_write
  from t have d: "draftCells shadowed = [(''0-3'', JBool True), (''0-2'', JBool True)]"
    by blast
  from t have "writes (persistMyCells ''2026-03-03T09:00:00.000Z'' None (draftCells shadowed)
      shadowed) = []"
    by blast
  then show ?thesis unfolding d by (simp add: key_set_def)
qed

section \<open>Draft reconciliation\<close>

text \<open>Where the buffer has plain keys, the effect replaces it exactly when the key sets
  differ.\<close>

lemma reconcileDraft_plain_keys:
  assumes "\<not> d_active (drawing st)" and "myMember st = Some m"
    and "distinct (map fst (draftCells st))" and "plain_keys (draftCells st)"
    and "distinct (map fst (cells m))" and "genuine (cells m)"
  shows "(key_set (draftCells st) = key_set (cells m) \<longrightarrow> reconcileDraft st = st) \<and>
         (key_set (draftCells st) \<noteq> key_set (cells m) \<longrightarrow>
            reconcileDraft st = st\<lparr>draftCells := cells m\<rparr>)"
proof -
  from assms have "sameCells (draftCells st) (cells m) \<longleftrightarrow>
      key_set (draftCells st) = key_set (cells m)"
    by (simp add: sameCells_iff)
  with assms(1,2) show ?thesis
    by (simp add: reconcileDraft_def Let_def)
qed

lemma reconciled_once_facts:
  "draftCells reconciled_once = [(''constructor'', JBool True)]"
  "has_client reconciled_once" "userId reconciled_once = ''u1''"
  "drawing reconciled_once = \<lparr> d_active = False, d_value = True \<rparr>"
  "touchGesture reconciled_once = idle_gesture"
proof -
  let ?row = "member_me\<lparr>cells := [(''constructor'', JBool True)]\<rparr>"
  have f: "fetchMembers example_parse 1772290800000 None
          (Some [own_row [(''constructor'', JBool True)]]) session =
        session\<lparr>members := [?row]\<rparr>"
    by (simp add: fetchMembers_def session_facts own_row_presented sanitizeCells_def assign_def)
  have my: "myMember (session\<lparr>members := [?row]\<rparr>) = Some ?row"
    by (simp add: myMember_def session_facts) (simp add: member_me_def)
  have ns: "\<not> sameCells [(''0-3'', JBool True), (''0-2'', JBool True)]
      [(''constructor'', JBool True)]"
    by (simp add: sameCells_def)
  have r: "reconciled_once =
      session\<lparr>members := [?row], draftCells := [(''constructor'', JBool True)]\<rparr>"
    unfolding reconciled_once_def f
    by (simp add: reconcileDraft_def my Let_def session_facts ns)
  show "draftCells reconciled_once = [(''constructor'', JBool True)]"
    "has_client reconciled_once" "userId reconciled_once = ''u1''"
    "drawing reconciled_once = \<lparr> d_active = False, d_value = True \<rparr>"
    "touchGesture reconciled_once = idle_gesture"
    unfolding r by (simp_all add: session_def)
qed

lemma refetched_eq:
  "refetched = reconciled_once\<lparr>members := [member_me\<lparr>cells := [(''0-0'', JBool True)]\<rparr>]\<rparr>"
  by (simp add: refetched_def fetchMembers_def reconciled_once_facts own_row_presented
      sanitizeCells_def assign_def)

text \<open>
  C8. The effect is to replace the draft buffer by the committed cells exactly when the two
  differ as sets. Here a first fetch finds the own row stored with the one cell
  \<open>constructor\<close>, and the effect takes it into the buffer; a second fetch finds the row
  changed to the one cell \<open>0-0\<close>. No drawing and no touch gesture is active and the two
  records differ as sets, yet the effect returns the state as it is and the buffer keeps
  \<open>constructor\<close>: both records have one key, and \<open>sameCells\<close> reads \<open>constructor\<close> in
  the committed record through the prototype chain.
\<close>

theorem reconcileDraft_inherited_key_keeps_buffer:
  "draftCells refetched = [(''constructor'', JBool True)] \<and>
   myMember refetched = Some (member_me\<lparr>cells := [(''0-0'', JBool True)]\<rparr>) \<and>
   \<not> d_active (drawing refetched) \<and> \<not> g_active (touchGesture refetched) \<and>
   key_set (draftCells refetched) \<noteq> key_set [(''0-0'', JBool True)] \<and>
   reconcileDraft refetched = refetched \<and>
   draftCells (reconcileDraft refetched) = [(''constructor'', JBool True)]"
proof -
  have d: "draftCells refetched = [(''constructor'', JBool True)]"
    by (simp add: refetched_eq reconciled_once_facts)
  have m: "myMember refetched = Some (member_me\<lparr>cells := [(''0-0'', JBool True)]\<rparr>)"
    by (simp add: refetched_eq myMember_def reconciled_once_facts) (simp add: member_me_def)
  have g: "\<not> d_active (drawing refetched)" "\<not> g_active (touchGesture refetched)"
    by (simp_all add: refetched_eq reconciled_once_facts idle_gesture_def)
  have ne: "key_set (draftCells refetched) \<noteq> key_set [(''0-0'', JBool True)]"
    by (simp add: d key_set_def)
  have "sameCells (draftCells refetched) [(''0-0'', JBool True)]"
    by (simp add: d sameCells_def truthy_prop_def inherited_def Object_prototype_names_def)
  then have r: "reconcileDraft refetched = refetched"
    by (simp add: reconcileDraft_def m g Let_def)
  from d m g ne r show ?thesis by simp
qed

theorem reconcileDraft_inherited_key_keeps_buffer_witness:
  "key_set (draftCells (reconcileDraft refetched)) = {''constructor''} \<and>
   key_set (cells (member_me\<lparr>cells := [(''0-0'', JBool True)]\<rparr>)) = {''0-0''}"
proof -
  from reconcileDraft_inherited_key_keeps_buffer
  have "draftCells (reconcileDraft refetched) = [(''constructor'', JBool True)]"
    by blast
  then show ?thesis by (simp add: key_set_def)
qed

section \<open>Staleness\<close>

text \<open>
  C5. For every row and week start (the parser rejecting the empty string, as the
  platform's does): when \<open>updated_at\<close> is null, does not parse, or parses to an instant
  strictly before the week start, the member is presented with empty cells and
  \<open>is_stale\<close> set; when it parses to an instant at or after the week start, the member
  is presented with its cells as they are and \<open>is_stale\<close> false.
\<close>

theorem stale_rows_presented_empty:
  assumes "parse [] = None"
  shows "((updated_at (toMember row) = None \<or>
           (\<exists>s. updated_at (toMember row) = Some s \<and>
                (parse s = None \<or> (\<exists>ms. parse s = Some ms \<and> ms < weekStartMs)))) \<longrightarrow>
            presentRow parse weekStartMs row = (toMember row)\<lparr>cells := [], is_stale := True\<rparr>) \<and>
         ((\<exists>s ms. updated_at (toMember row) = Some s \<and> parse s = Some ms \<and> weekStartMs \<le> ms) \<longrightarrow>
            presentRow parse weekStartMs row = (toMember row)\<lparr>is_stale := False\<rparr> \<and>
            cells (presentRow parse weekStartMs row) = cells (toMember row))"
proof -
  have stale: "isStaleWeek parse u weekStartMs \<longleftrightarrow>
      (u = None \<or> (\<exists>s. u = Some s \<and>
          (parse s = None \<or> (\<exists>ms. parse s = Some ms \<and> ms < weekStartMs))))" for u
    using assms by (auto simp: isStaleWeek_def split: option.splits)
  show ?thesis
    unfolding presentRow_def Let_def stale by auto
qed

lemma toMember_example_row: "toMember example_row = member_me"
  by (simp add: toMember_def example_row_def field_def string_or_def string_or_null_def
      sanitizeCells_def assign_def member_me_def TEAM_CODE_def)

theorem stale_rows_presented_empty_witness:
  "example_parse [] = None \<and>
   updated_at (toMember example_row) = Some ''2026-03-02T10:00:00.000Z'' \<and>
   example_parse ''2026-03-02T10:00:00.000Z'' = Some 1772445600000 \<and>
   presentRow example_parse 1772895600000 example_row =
     member_me\<lparr>cells := [], is_stale := True\<rparr> \<and>
   presentRow example_parse 1772290800000 example_row = member_me\<lparr>is_stale := False\<rparr> \<and>
   presentRow example_parse 1772445600000 example_row = member_me\<lparr>is_stale := False\<rparr> \<and>
   updated_at (toMember JNull) = None \<and>
   cells (presentRow example_parse 1772290800000 JNull) = [] \<and>
   is_stale (presentRow example_parse 1772290800000 JNull)"
proof -
  have p0: "example_parse [] = None" by (simp add: example_parse_def)
  have p1: "example_parse ''2026-03-02T10:00:00.000Z'' = Some 1772445600000"
    by (simp add: example_parse_def)
  have u: "updated_at (toMember example_row) = Some ''2026-03-02T10:00:00.000Z''"
    by (simp add: toMember_example_row member_me_def)
  have n: "updated_at (toMember JNull) = None"
    by (simp add: toMember_def field_def string_or_null_def)
  from stale_rows_presented_empty [where parse = example_parse and row = example_row and weekStartMs = 1772895600000] p0 u p1
  have a: "presentRow example_parse 1772895600000 example_row =
      member_me\<lparr>cells := [], is_stale := True\<rparr>"
    by (simp add: toMember_example_row)
  from stale_rows_presented_empty [where parse = example_parse and row = example_row and weekStartMs = 1772290800000] p0 u p1
  have b: "presentRow example_parse 1772290800000 example_row = member_me\<lparr>is_stale := False\<rparr>"
    by (simp add: toMember_example_row)
  from stale_rows_presented_empty [where parse = example_parse and row = example_row and weekStartMs = 1772445600000] p0 u p1
  have c: "presentRow example_parse 1772445600000 example_row = member_me\<lparr>is_stale := False\<rparr>"
    by (simp add: toMember_example_row)
  from stale_rows_presented_empty [where parse = example_parse and row = JNull and weekStartMs = 1772290800000] p0 n
  have d: "presentRow example_parse 1772290800000 JNull =
      (toMember JNull)\<lparr>cells := [], is_stale := True\<rparr>"
    by simp
  from p0 p1 u n a b c d show ?thesis by simp
qed

section \<open>Gestures\<close>

lemma paintCell_alt:
  "paintCell d s v st =
     st\<lparr>draftCells := (if isCellInputEnabled st
                       then paint_updater (keyFor d s) v (draftCells st)
                       else draftCells st)\<rparr>"
  by (simp add: paintCell_def)

lemma paintFound_alt:
  "paintFound h e v st =
     st\<lparr>draftCells := draftCells (paintFound h e v st)\<rparr>"
  by (simp add: paintFound_def paintCell_def split: option.splits)

lemma canEditSelected_updates [simp]:
  "canEditSelected (st\<lparr>touchGesture := g\<rparr>) = canEditSelected st"
  "canEditSelected (st\<lparr>drawing := dr\<rparr>) = canEditSelected st"
  "canEditSelected (st\<lparr>draftCells := c\<rparr>) = canEditSelected st"
  "canEditSelected (st\<lparr>timers := ts\<rparr>) = canEditSelected st"
  by (simp_all add: canEditSelected_def selectedMember_def
      resolvedSelectedMemberId_def myMember_def cong: option.case_cong list.case_cong)

lemma enabled_updates [simp]:
  "isCellInputEnabled (st\<lparr>touchGesture := g\<rparr>) = isCellInputEnabled st"
  "isCellInputEnabled (st\<lparr>drawing := dr\<rparr>) = isCellInputEnabled st"
  "isCellInputEnabled (st\<lparr>timers := ts\<rparr>) = isCellInputEnabled st"
  by (simp_all add: isCellInputEnabled_def)

lemma myMember_updates [simp]:
  "myMember (st\<lparr>touchGesture := g\<rparr>) = myMember st"
  "myMember (st\<lparr>drawing := dr\<rparr>) = myMember st"
  "myMember (st\<lparr>timers := ts\<rparr>) = myMember st"
  by (simp_all add: myMember_def)

lemma paintCell_keeps [simp]:
  "touchGesture (paintCell d s v st) = touchGesture st"
  "drawing (paintCell d s v st) = drawing st"
  "timers (paintCell d s v st) = timers st"
  "writes (paintCell d s v st) = writes st"
  by (simp_all add: paintCell_def)

lemma paintFound_keeps [simp]:
  "touchGesture (paintFound h e v st) = touchGesture st"
  "drawing (paintFound h e v st) = drawing st"
  by (simp_all add: paintFound_def split: option.splits)

lemma scroll_move_ignored:
  "g_active (touchGesture st) \<Longrightarrow> g_mode (touchGesture st) = Scroll \<Longrightarrow>
   handlePointerMove h e st = st"
  by (simp add: handlePointerMove_def Let_def)

lemma scroll_moves_ignored:
  "g_active (touchGesture st) \<Longrightarrow> g_mode (touchGesture st) = Scroll \<Longrightarrow>
   pointerMoves moves st = st"
proof (induction moves)
  case Nil
  then show ?case by (simp add: pointerMoves_def)
next
  case (Cons m moves)
  obtain h e where m: "m = (h, e)" by (cases m)
  from Cons.prems have "handlePointerMove h e st = st" by (rule scroll_move_ignored)
  with Cons m show ?case by (simp add: pointerMoves_def)
qed

lemma scroll_stop_keeps_draft:
  "g_active (touchGesture st) \<Longrightarrow> g_mode (touchGesture st) = Scroll \<Longrightarrow>
   draftCells (stopDrawing now err e st) = draftCells st"
  by (simp add: stopDrawing_def Let_def)

lemma key_0_5: "keyFor 0 5 = ''0-5''"
  by (simp add: keyFor_def numstr.simps digit_def)

lemma key_0_6: "keyFor 0 6 = ''0-6''"
  by (simp add: keyFor_def numstr.simps digit_def)

subsection \<open>Double arithmetic on given numbers\<close>

lemma floor_rat_numeral:
  "\<lfloor>numeral a / numeral b :: rat\<rfloor> = numeral a div numeral b"
  using floor_divide_of_int_eq [of "numeral a" "numeral b", where ?'a = rat] by simp

lemmas double_eval =
  to_double_def ilog2_def pow2_def round_half_even_def bitlength.simps Let_def
  floor_rat_numeral

lemma gesture_constants:
  "TOUCH_GESTURE_START_PX = Fin 10"
  "TOUCH_GESTURE_AXIS_RATIO = Fin (5404319552844595 / 4503599627370496)"
  by (simp_all add: TOUCH_GESTURE_START_PX_def TOUCH_GESTURE_AXIS_RATIO_def double_eval)

lemma to_double_12: "to_double 12 = Fin 12"
  by (simp add: double_eval)

lemma to_double_small: "to_double 4 = Fin 4" "to_double (- 3) = Fin (- 3)"
  by (simp_all add: double_eval)

lemma to_double_fractions:
  "to_double (168 / 10) = Fin (4728779608739021 / 281474976710656)"
  "to_double (2 / 10) = Fin (3602879701896397 / 18014398509481984)"
  "to_double (102 / 10) = Fin (5742089524897382 / 562949953421312)"
  by (simp_all add: double_eval)

text \<open>\<open>14 * 1.2\<close> rounds to the double of \<open>16.8\<close>, and \<open>10.2 - 0.2\<close> to \<open>10\<close>.\<close>

lemma ratio_tie: "fmul (Fin 14) TOUCH_GESTURE_AXIS_RATIO = to_double (168 / 10)"
  by (simp add: gesture_constants double_eval)

lemma fraction_difference: "fsub (to_double (102 / 10)) (to_double (2 / 10)) = Fin 10"
  by (simp add: double_eval)

lemma example_classification:
  "\<not> flt (fmul (Fin 0) TOUCH_GESTURE_AXIS_RATIO) (Fin 0)"
  "flt (fmul (Fin 0) TOUCH_GESTURE_AXIS_RATIO) (Fin 12)"
  "flt (fmul (Fin 0) TOUCH_GESTURE_AXIS_RATIO) (Fin 10)"
  "\<not> flt (fmul (Fin 12) TOUCH_GESTURE_AXIS_RATIO) (Fin 0)"
  "\<not> flt (fmul (Fin 14) TOUCH_GESTURE_AXIS_RATIO) (to_double (168 / 10))"
  "\<not> flt (to_double (168 / 10)) TOUCH_GESTURE_START_PX"
  "\<not> flt (Fin 12) TOUCH_GESTURE_START_PX" "\<not> flt (Fin 10) TOUCH_GESTURE_START_PX"
  "flt (Fin 4) TOUCH_GESTURE_START_PX" "flt (Fin 3) TOUCH_GESTURE_START_PX"
  by (simp_all add: gesture_constants double_eval)

subsection \<open>Moves and ends of a gesture\<close>

lemma pressed_at:
  assumes "is_touch ev"
  shows "onPointerDown 0 5 ev session = session\<lparr>touchGesture :=
      \<lparr> g_active = True, g_pointerId = Some (pointerId ev), g_startX = clientX ev,
        g_startY = clientY ev, g_startDay = 0, g_startSlot = 5, g_value = True,
        g_mode = Pending \<rparr>\<rparr>"
proof -
  have "selectedMember session = Some member_me"
    by (simp add: selectedMember_def resolvedSelectedMemberId_def session_def
        member_me_def member_other_def)
  then have "displayedCells session = [(''0-3'', JBool True), (''0-2'', JBool True)]"
    by (simp add: displayedCells_def) (simp add: session_def member_me_def)
  then have "\<not> truthy_prop (displayedCells session) (keyFor 0 5)"
    by (simp add: key_0_5 truthy_prop_def inherited_def Object_prototype_names_def)
  moreover have "paintMode session = Smart" by (simp add: session_def)
  ultimately show ?thesis
    using assms by (simp add: onPointerDown_def session_enabled Let_def)
qed

lemma pressed_eq:
  "pressed = session\<lparr>touchGesture :=
      \<lparr> g_active = True, g_pointerId = Some 1, g_startX = Fin 100, g_startY = Fin 100,
        g_startDay = 0, g_startSlot = 5, g_value = True, g_mode = Pending \<rparr>\<rparr>"
  unfolding pressed_def by (simp add: pressed_at touch_down_def)

lemma pressed_enabled: "isCellInputEnabled pressed"
  using session_enabled by (simp add: pressed_eq)

lemma pressed_facts:
  "g_active (touchGesture pressed)" "g_mode (touchGesture pressed) = Pending"
  "g_pointerId (touchGesture pressed) = Some 1"
  "g_startX (touchGesture pressed) = Fin 100" "g_startY (touchGesture pressed) = Fin 100"
  "g_startDay (touchGesture pressed) = 0" "g_startSlot (touchGesture pressed) = 5"
  "g_value (touchGesture pressed)"
  "draftCells pressed = [(''0-3'', JBool True), (''0-2'', JBool True)]"
  "timers pressed = []" "writes pressed = []" "drawing pressed = \<lparr> d_active = False, d_value = True \<rparr>"
  by (simp_all add: pressed_eq) (simp_all add: session_def)

lemma pressed_same_pointer:
  "\<not> other_pointer (touchGesture pressed) move_vertical"
  "\<not> other_pointer (touchGesture pressed) move_horizontal"
  "\<not> other_pointer (touchGesture pressed) move_slight"
  by (simp_all add: other_pointer_def pressed_facts move_vertical_def move_horizontal_def
      move_slight_def)

lemma pressed_displacements:
  "displacement (clientX move_slight) (g_startX (touchGesture pressed)) = Fin 4"
  "displacement (clientY move_slight) (g_startY (touchGesture pressed)) = Fin 3"
  "displacement (clientX move_vertical) (g_startX (touchGesture pressed)) = Fin 0"
  "displacement (clientY move_vertical) (g_startY (touchGesture pressed)) = Fin 12"
  "displacement (clientX move_horizontal) (g_startX (touchGesture pressed)) = Fin 12"
  "displacement (clientY move_horizontal) (g_startY (touchGesture pressed)) = Fin 0"
  by (simp_all add: displacement_def pressed_facts move_slight_def move_vertical_def
      move_horizontal_def to_double_12 to_double_small)
     (simp_all add: to_double_def)

lemma pressed_origin_facts:
  "g_active (touchGesture pressed_origin)" "g_mode (touchGesture pressed_origin) = Pending"
  "\<not> other_pointer (touchGesture pressed_origin) move_ratio_tie"
  "g_startX (touchGesture pressed_origin) = Fin 0"
  "g_startY (touchGesture pressed_origin) = Fin 0"
  unfolding pressed_origin_def
  by (simp_all add: pressed_at touch_origin_def other_pointer_def move_ratio_tie_def)

lemma pressed_fraction_facts:
  "g_active (touchGesture pressed_fraction)" "g_mode (touchGesture pressed_fraction) = Pending"
  "\<not> other_pointer (touchGesture pressed_fraction) move_fraction"
  "g_startX (touchGesture pressed_fraction) = to_double (2 / 10)"
  "g_startY (touchGesture pressed_fraction) = Fin 0"
  unfolding pressed_fraction_def
  by (simp_all add: pressed_at touch_fraction_def other_pointer_def move_fraction_def)

text \<open>A touch on a cell starts a pending gesture only where input is enabled.\<close>

lemma touch_down_starts_pending:
  "\<not> isCellInputEnabled st \<longrightarrow> onPointerDown d s ev st = st"
  "isCellInputEnabled st \<and> is_touch ev \<longrightarrow>
     g_active (touchGesture (onPointerDown d s ev st)) \<and>
     g_mode (touchGesture (onPointerDown d s ev st)) = Pending \<and>
     g_pointerId (touchGesture (onPointerDown d s ev st)) = Some (pointerId ev) \<and>
     draftCells (onPointerDown d s ev st) = draftCells st \<and>
     isCellInputEnabled (onPointerDown d s ev st)"
  by (simp_all add: onPointerDown_def Let_def)

lemma pending_move:
  assumes "g_active (touchGesture st)" and "\<not> other_pointer (touchGesture st) ev"
    and "g_mode (touchGesture st) = Pending"
  shows "handlePointerMove hit ev st =
     (if flt (displacement (clientX ev) (g_startX (touchGesture st))) TOUCH_GESTURE_START_PX \<and>
         flt (displacement (clientY ev) (g_startY (touchGesture st))) TOUCH_GESTURE_START_PX
      then st
      else if flt (fmul (displacement (clientY ev) (g_startY (touchGesture st)))
                    TOUCH_GESTURE_AXIS_RATIO)
                (displacement (clientX ev) (g_startX (touchGesture st)))
      then st\<lparr>touchGesture := (touchGesture st)\<lparr>g_mode := Scroll\<rparr>\<rparr>
      else paintFound hit ev (g_value (touchGesture st))
             (paintCell (g_startDay (touchGesture st)) (g_startSlot (touchGesture st))
                (g_value (touchGesture st))
                (st\<lparr>touchGesture := (touchGesture st)\<lparr>g_mode := Paint\<rparr>,
                    drawing := \<lparr> d_active = True, d_value = g_value (touchGesture st) \<rparr>\<rparr>)))"
  using assms by (simp add: handlePointerMove_def Let_def displacement_def)

text \<open>
  C6. For a pointer move that belongs to an active touch gesture, with the displacements
  \<open>Math.abs(clientX - startX)\<close> and \<open>Math.abs(clientY - startY)\<close> taken from the
  recorded start point in double arithmetic, as the handler computes them: while the
  gesture is pending, a move with both displacements below 10 px changes nothing; any
  other move makes the gesture a scroll when the horizontal displacement exceeds the
  product of the vertical one and the double 1.2, leaving every other part of the state
  as it was, and a paint otherwise, with drawing switched on and the start cell and the
  cell under the pointer painted. Displacements of 12 and 0 give a scroll, of 0 and 12 a
  paint. Once the gesture is a scroll, every further run of pointer moves returns the
  state unchanged, entering a cell does so too while no drawing is active, and the end of
  the gesture leaves the draft buffer as it is.
\<close>

theorem touch_axis_lock:
  assumes "g_active (touchGesture st)" and "\<not> other_pointer (touchGesture st) ev"
  shows
   "TOUCH_GESTURE_START_PX = Fin 10 \<and>
    TOUCH_GESTURE_AXIS_RATIO = Fin (5404319552844595 / 4503599627370496) \<and>
    (g_mode (touchGesture st) = Pending \<and>
     flt (displacement (clientX ev) (g_startX (touchGesture st))) TOUCH_GESTURE_START_PX \<and>
     flt (displacement (clientY ev) (g_startY (touchGesture st))) TOUCH_GESTURE_START_PX \<longrightarrow>
       handlePointerMove hit ev st = st) \<and>
    (g_mode (touchGesture st) = Pending \<and>
     \<not> (flt (displacement (clientX ev) (g_startX (touchGesture st))) TOUCH_GESTURE_START_PX \<and>
        flt (displacement (clientY ev) (g_startY (touchGesture st))) TOUCH_GESTURE_START_PX) \<and>
     flt (fmul (displacement (clientY ev) (g_startY (touchGesture st))) TOUCH_GESTURE_AXIS_RATIO)
       (displacement (clientX ev) (g_startX (touchGesture st))) \<longrightarrow>
       handlePointerMove hit ev st =
         st\<lparr>touchGesture := (touchGesture st)\<lparr>g_mode := Scroll\<rparr>\<rparr>) \<and>
    (g_mode (touchGesture st) = Pending \<and>
     \<not> (flt (displacement (clientX ev) (g_startX (touchGesture st))) TOUCH_GESTURE_START_PX \<and>
        flt (displacement (clientY ev) (g_startY (touchGesture st))) TOUCH_GESTURE_START_PX) \<and>
     \<not> flt (fmul (displacement (clientY ev) (g_startY (touchGesture st)))
              TOUCH_GESTURE_AXIS_RATIO)
          (displacement (clientX ev) (g_startX (touchGesture st))) \<longrightarrow>
       handlePointerMove hit ev st =
         paintFound hit ev (g_value (touchGesture st))
           (paintCell (g_startDay (touchGesture st)) (g_startSlot (touchGesture st))
              (g_value (touchGesture st))
              (st\<lparr>touchGesture := (touchGesture st)\<lparr>g_mode := Paint\<rparr>,
                  drawing := \<lparr> d_active = True, d_value = g_value (touchGesture st) \<rparr>\<rparr>)) \<and>
       g_mode (touchGesture (handlePointerMove hit ev st)) = Paint \<and>
       d_active (drawing (handlePointerMove hit ev st))) \<and>
    (g_mode (touchGesture st) = Pending \<and>
     displacement (clientX ev) (g_startX (touchGesture st)) = Fin 12 \<and>
     displacement (clientY ev) (g_startY (touchGesture st)) = Fin 0 \<longrightarrow>
       g_mode (touchGesture (handlePointerMove hit ev st)) = Scroll) \<and>
    (g_mode (touchGesture st) = Pending \<and>
     displacement (clientX ev) (g_startX (touchGesture st)) = Fin 0 \<and>
     displacement (clientY ev) (g_startY (touchGesture st)) = Fin 12 \<longrightarrow>
       g_mode (touchGesture (handlePointerMove hit ev st)) = Paint) \<and>
    (g_mode (touchGesture st) = Scroll \<longrightarrow>
       pointerMoves moves st = st \<and>
       (\<not> d_active (drawing st) \<longrightarrow> onPointerEnter d s st = st) \<and>
       draftCells (stopDrawing now err stop st) = draftCells st)"
proof -
  note c = gesture_constants
  note m = pending_move [OF assms, of hit]
  have below: "g_mode (touchGesture st) = Pending \<and>
     flt (displacement (clientX ev) (g_startX (touchGesture st))) TOUCH_GESTURE_START_PX \<and>
     flt (displacement (clientY ev) (g_startY (touchGesture st))) TOUCH_GESTURE_START_PX \<longrightarrow>
       handlePointerMove hit ev st = st"
    using m by simp
  have scroll: "g_mode (touchGesture st) = Pending \<and>
     \<not> (flt (displacement (clientX ev) (g_startX (touchGesture st))) TOUCH_GESTURE_START_PX \<and>
        flt (displacement (clientY ev) (g_startY (touchGesture st))) TOUCH_GESTURE_START_PX) \<and>
     flt (fmul (displacement (clientY ev) (g_startY (touchGesture st))) TOUCH_GESTURE_AXIS_RATIO)
       (displacement (clientX ev) (g_startX (touchGesture st))) \<longrightarrow>
       handlePointerMove hit ev st =
         st\<lparr>touchGesture := (touchGesture st)\<lparr>g_mode := Scroll\<rparr>\<rparr>"
    using m by simp
  have paint: "g_mode (touchGesture st) = Pending \<and>
     \<not> (flt (displacement (clientX ev) (g_startX (touchGesture st))) TOUCH_GESTURE_START_PX \<and>
        flt (displacement (clientY ev) (g_startY (touchGesture st))) TOUCH_GESTURE_START_PX) \<and>
     \<not> flt (fmul (displacement (clientY ev) (g_startY (touchGesture st)))
              TOUCH_GESTURE_AXIS_RATIO)
          (displacement (clientX ev) (g_startX (touchGesture st))) \<longrightarrow>
       handlePointerMove hit ev st =
         paintFound hit ev (g_value (touchGesture st))
           (paintCell (g_startDay (touchGesture st)) (g_startSlot (touchGesture st))
              (g_value (touchGesture st))
              (st\<lparr>touchGesture := (touchGesture st)\<lparr>g_mode := Paint\<rparr>,
                  drawing := \<lparr> d_active = True, d_value = g_value (touchGesture st) \<rparr>\<rparr>)) \<and>
       g_mode (touchGesture (handlePointerMove hit ev st)) = Paint \<and>
       d_active (drawing (handlePointerMove hit ev st))"
    using m by simp
  have ex1: "g_mode (touchGesture st) = Pending \<and>
     displacement (clientX ev) (g_startX (touchGesture st)) = Fin 12 \<and>
     displacement (clientY ev) (g_startY (touchGesture st)) = Fin 0 \<longrightarrow>
       g_mode (touchGesture (handlePointerMove hit ev st)) = Scroll"
    using m by (simp add: example_classification)
  have ex2: "g_mode (touchGesture st) = Pending \<and>
     displacement (clientX ev) (g_startX (touchGesture st)) = Fin 0 \<and>
     displacement (clientY ev) (g_startY (touchGesture st)) = Fin 12 \<longrightarrow>
       g_mode (touchGesture (handlePointerMove hit ev st)) = Paint"
    using m by (simp add: example_classification)
  have rest: "g_mode (touchGesture st) = Scroll \<longrightarrow>
       pointerMoves moves st = st \<and>
       (\<not> d_active (drawing st) \<longrightarrow> onPointerEnter d s st = st) \<and>
       draftCells (stopDrawing now err stop st) = draftCells st"
    using assms(1)
    by (simp add: scroll_moves_ignored scroll_stop_keeps_draft onPointerEnter_def)
  from c below scroll paint ex1 ex2 rest show ?thesis by blast
qed

theorem touch_axis_lock_witness:
  "g_active (touchGesture pressed) \<and> g_mode (touchGesture pressed) = Pending \<and>
   \<not> other_pointer (touchGesture pressed) move_slight \<and>
   \<not> other_pointer (touchGesture pressed) move_vertical \<and>
   \<not> other_pointer (touchGesture pressed) move_horizontal \<and>
   handlePointerMove hit_0_6 move_slight pressed = pressed \<and>
   g_mode (touchGesture (handlePointerMove hit_0_6 move_vertical pressed)) = Paint \<and>
   draftCells (handlePointerMove hit_0_6 move_vertical pressed) =
     [(''0-3'', JBool True), (''0-2'', JBool True), (''0-5'', JBool True),
      (''0-6'', JBool True)] \<and>
   handlePointerMove hit_0_6 move_horizontal pressed =
     pressed\<lparr>touchGesture := (touchGesture pressed)\<lparr>g_mode := Scroll\<rparr>\<rparr> \<and>
   pointerMoves [(hit_0_6, move_vertical), (hit_0_6, move_slight)]
     (handlePointerMove hit_0_6 move_horizontal pressed) =
     handlePointerMove hit_0_6 move_horizontal pressed \<and>
   draftCells (stopDrawing ''2026-03-03T09:00:00.000Z'' None (Some move_horizontal)
                 (handlePointerMove hit_0_6 move_horizontal pressed)) =
     draftCells pressed \<and>
   g_active (touchGesture pressed_origin) \<and> g_mode (touchGesture pressed_origin) = Pending \<and>
   \<not> other_pointer (touchGesture pressed_origin) move_ratio_tie \<and>
   g_mode (touchGesture (handlePointerMove hit_0_6 move_ratio_tie pressed_origin)) = Paint \<and>
   g_active (touchGesture pressed_fraction) \<and>
   g_mode (touchGesture pressed_fraction) = Pending \<and>
   \<not> other_pointer (touchGesture pressed_fraction) move_fraction \<and>
   handlePointerMove hit_0_6 move_fraction pressed_fraction =
     pressed_fraction\<lparr>touchGesture := (touchGesture pressed_fraction)\<lparr>g_mode := Scroll\<rparr>\<rparr>"
proof -
  let ?scrolled = "pressed\<lparr>touchGesture := (touchGesture pressed)\<lparr>g_mode := Scroll\<rparr>\<rparr>"
  note d = pressed_displacements
  note x = example_classification
  from touch_axis_lock [OF pressed_facts(1) pressed_same_pointer(3), of hit_0_6]
    pressed_facts(2) d(1,2) x(9,10)
  have a: "handlePointerMove hit_0_6 move_slight pressed = pressed" by simp
  from touch_axis_lock [OF pressed_facts(1) pressed_same_pointer(1), of hit_0_6]
    pressed_facts(2) d(3,4) x(4,7)
  have b: "handlePointerMove hit_0_6 move_vertical pressed =
         paintFound hit_0_6 move_vertical (g_value (touchGesture pressed))
           (paintCell (g_startDay (touchGesture pressed)) (g_startSlot (touchGesture pressed))
              (g_value (touchGesture pressed))
              (pressed\<lparr>touchGesture := (touchGesture pressed)\<lparr>g_mode := Paint\<rparr>,
                  drawing := \<lparr> d_active = True, d_value = g_value (touchGesture pressed) \<rparr>\<rparr>))"
    and b2: "g_mode (touchGesture (handlePointerMove hit_0_6 move_vertical pressed)) = Paint"
    by simp_all
  have b3: "draftCells (handlePointerMove hit_0_6 move_vertical pressed) =
     [(''0-3'', JBool True), (''0-2'', JBool True), (''0-5'', JBool True),
      (''0-6'', JBool True)]"
    unfolding b
    by (simp add: paintFound_def hit_0_6_def paintCell_def pressed_enabled pressed_facts
        key_0_5 key_0_6 paint_updater_def truthy_prop_def inherited_def
        Object_prototype_names_def assign_def)
  from touch_axis_lock [OF pressed_facts(1) pressed_same_pointer(2), of hit_0_6]
    pressed_facts(2) d(5,6) x(2,7)
  have c: "handlePointerMove hit_0_6 move_horizontal pressed = ?scrolled" by simp
  have s1: "g_active (touchGesture ?scrolled)" "g_mode (touchGesture ?scrolled) = Scroll"
    by (simp_all add: pressed_facts)
  have s2: "\<not> other_pointer (touchGesture ?scrolled) move_horizontal"
    using pressed_same_pointer(2) by (simp add: other_pointer_def)
  from touch_axis_lock [OF s1(1) s2,
      where moves = "[(hit_0_6, move_vertical), (hit_0_6, move_slight)]"
        and now = "''2026-03-03T09:00:00.000Z''" and err = None
        and stop = "Some move_horizontal"] s1(2)
  have e: "pointerMoves [(hit_0_6, move_vertical), (hit_0_6, move_slight)] ?scrolled = ?scrolled"
    and f: "draftCells (stopDrawing ''2026-03-03T09:00:00.000Z'' None (Some move_horizontal)
                 ?scrolled) = draftCells ?scrolled"
    by blast+
  have od: "displacement (clientX move_ratio_tie) (g_startX (touchGesture pressed_origin)) =
      to_double (168 / 10)"
    "displacement (clientY move_ratio_tie) (g_startY (touchGesture pressed_origin)) = Fin 14"
    by (simp_all add: displacement_def pressed_origin_facts move_ratio_tie_def double_eval)
  from touch_axis_lock [OF pressed_origin_facts(1,3), of hit_0_6]
    pressed_origin_facts(2) od x(5,6)
  have g: "g_mode (touchGesture (handlePointerMove hit_0_6 move_ratio_tie pressed_origin)) =
      Paint"
    by simp
  have fd: "displacement (clientX move_fraction) (g_startX (touchGesture pressed_fraction)) =
      Fin 10"
    "displacement (clientY move_fraction) (g_startY (touchGesture pressed_fraction)) = Fin 0"
    by (simp_all add: displacement_def pressed_fraction_facts move_fraction_def double_eval)
  from touch_axis_lock [OF pressed_fraction_facts(1,3), of hit_0_6]
    pressed_fraction_facts(2) fd x(3,8)
  have h: "handlePointerMove hit_0_6 move_fraction pressed_fraction =
     pressed_fraction\<lparr>touchGesture := (touchGesture pressed_fraction)\<lparr>g_mode := Scroll\<rparr>\<rparr>"
    by simp
  from pressed_facts(1,2) pressed_same_pointer a b2 b3 c e f
    pressed_origin_facts(1,2,3) g pressed_fraction_facts(1,2,3) h
  show ?thesis by simp
qed

lemma stopDrawing_pending_tap:
  assumes "g_active (touchGesture st)" and "g_mode (touchGesture st) = Pending"
    and "\<not> other_pointer (touchGesture st) ev" and "isCellInputEnabled st"
  shows
    "stopDrawing now err (Some ev) st =
       st\<lparr>draftCells := paint_updater
                          (keyFor (g_startDay (touchGesture st)) (g_startSlot (touchGesture st)))
                          (g_value (touchGesture st)) (draftCells st),
          touchGesture := idle_gesture,
          drawing := (drawing st)\<lparr>d_active := False\<rparr>,
          timers := timers st @ [(80, PersistDraft)]\<rparr> \<and>
     writes (stopDrawing now err (Some ev) st) = writes st \<and>
     \<not> debounceArmed (stopDrawing now err (Some ev) st) \<and>
     (timers st = [] \<longrightarrow>
        fireTimer now' err' (stopDrawing now err (Some ev) st) =
          persistMyCells now' err'
            (paint_updater
               (keyFor (g_startDay (touchGesture st)) (g_startSlot (touchGesture st)))
               (g_value (touchGesture st)) (draftCells st))
            ((stopDrawing now err (Some ev) st)\<lparr>timers := []\<rparr>))"
proof -
  from assms(4) have can: "canEditSelected st" by (simp add: isCellInputEnabled_def)
  have dr: "(if d_active (drawing st)
             then \<lparr> d_active = False, d_value = d_value (drawing st) \<rparr>
             else drawing st) = (drawing st)\<lparr>d_active := False\<rparr>"
    by simp
  have eq: "stopDrawing now err (Some ev) st =
       st\<lparr>draftCells := paint_updater
                          (keyFor (g_startDay (touchGesture st)) (g_startSlot (touchGesture st)))
                          (g_value (touchGesture st)) (draftCells st),
          touchGesture := idle_gesture,
          drawing := (drawing st)\<lparr>d_active := False\<rparr>,
          timers := timers st @ [(80, PersistDraft)]\<rparr>"
    using assms can by (simp add: stopDrawing_def Let_def paintCell_def dr)
  show ?thesis
    unfolding eq by (simp add: debounceArmed_def fireTimer_def)
qed

text \<open>With cell input disabled the pending tap edits nothing, and its commit is queued
  only while the own row is the selected one.\<close>

lemma stopDrawing_pending_disabled:
  assumes "g_active (touchGesture st)" and "g_mode (touchGesture st) = Pending"
    and "\<not> other_pointer (touchGesture st) ev" and "\<not> isCellInputEnabled st"
  shows "draftCells (stopDrawing now err (Some ev) st) = draftCells st"
    and "writes (stopDrawing now err (Some ev) st) = writes st"
    and "timers (stopDrawing now err (Some ev) st) =
          (if canEditSelected st then timers st @ [(80, PersistDraft)] else timers st)"
    and "\<not> g_active (touchGesture (stopDrawing now err (Some ev) st))"
  using assms by (simp_all add: stopDrawing_def Let_def paintCell_def idle_gesture_def)

lemma below_threshold_move_ignored:
  assumes "g_active (touchGesture st)" and "g_mode (touchGesture st) = Pending"
    and "flt (displacement (clientX e) (g_startX (touchGesture st))) TOUCH_GESTURE_START_PX \<and>
         flt (displacement (clientY e) (g_startY (touchGesture st))) TOUCH_GESTURE_START_PX"
  shows "handlePointerMove h e st = st"
  using assms by (simp add: handlePointerMove_def Let_def displacement_def)

lemma below_threshold_moves_ignored:
  assumes "g_active (touchGesture st)" and "g_mode (touchGesture st) = Pending"
    and "\<forall>m \<in> set moves.
           flt (displacement (clientX (snd m)) (g_startX (touchGesture st)))
             TOUCH_GESTURE_START_PX \<and>
           flt (displacement (clientY (snd m)) (g_startY (touchGesture st)))
             TOUCH_GESTURE_START_PX"
  shows "pointerMoves moves st = st"
  using assms(3)
proof (induction moves)
  case Nil
  show ?case by (simp add: pointerMoves_def)
next
  case (Cons m moves)
  obtain h e where m: "m = (h, e)" by (cases m)
  with Cons.prems have "handlePointerMove h e st = st"
    by (intro below_threshold_move_ignored assms(1,2)) simp
  with Cons m show ?case by (simp add: pointerMoves_def)
qed

lemma deselected_facts:
  "g_active (touchGesture deselected)" "g_mode (touchGesture deselected) = Pending"
  "\<not> other_pointer (touchGesture deselected) move_slight"
  "g_startDay (touchGesture deselected) = 0" "g_startSlot (touchGesture deselected) = 5"
  "g_value (touchGesture deselected)"
  "draftCells deselected = [(''0-3'', JBool True), (''0-2'', JBool True)]"
  "timers deselected = []" "writes deselected = []"
  using pressed_same_pointer(3) by (simp_all add: deselected_def selectMember_def pressed_facts)

lemma deselected_disabled:
  "\<not> canEditSelected deselected" "\<not> isCellInputEnabled deselected"
proof -
  have "selectedMember deselected = Some member_other"
    by (simp add: deselected_def selectMember_def selectedMember_def
        resolvedSelectedMemberId_def pressed_eq)
       (simp add: session_def member_me_def member_other_def)
  moreover have "userId deselected = ''u1''" "user_id member_other = ''u2''"
    by (simp_all add: deselected_def selectMember_def pressed_eq session_facts
        member_other_def)
  ultimately show "\<not> canEditSelected deselected"
    by (simp add: canEditSelected_def)
  then show "\<not> isCellInputEnabled deselected"
    by (simp add: isCellInputEnabled_def)
qed

text \<open>
  A pending gesture whose end applies no edit and triggers no commit: the finger goes down
  on cell \<open>(0, 5)\<close> of the own row, recording the value \<open>true\<close> for a cell that the
  buffer does not hold; the row of the other member is selected before the finger lifts;
  the pointer-up of the gesture's pointer then leaves the buffer without the cell and
  queues no commit and issues no write.
\<close>

theorem pending_tap_deselected_counterexample:
  "g_active (touchGesture deselected) \<and> g_mode (touchGesture deselected) = Pending \<and>
   \<not> other_pointer (touchGesture deselected) move_slight \<and>
   g_startDay (touchGesture deselected) = 0 \<and> g_startSlot (touchGesture deselected) = 5 \<and>
   g_value (touchGesture deselected) \<and>
   \<not> truthy_prop (draftCells deselected) (keyFor 0 5) \<and>
   draftCells (stopDrawing ''2026-03-03T09:00:00.000Z'' None (Some move_slight) deselected) =
     draftCells deselected \<and>
   \<not> truthy_prop
       (draftCells
          (stopDrawing ''2026-03-03T09:00:00.000Z'' None (Some move_slight) deselected))
       (keyFor 0 5) \<and>
   timers (stopDrawing ''2026-03-03T09:00:00.000Z'' None (Some move_slight) deselected) = [] \<and>
   writes (stopDrawing ''2026-03-03T09:00:00.000Z'' None (Some move_slight) deselected) = []"
proof -
  note s = stopDrawing_pending_disabled [OF deselected_facts(1,2,3) deselected_disabled(2),
      of "''2026-03-03T09:00:00.000Z''" None]
  have n: "\<not> truthy_prop (draftCells deselected) (keyFor 0 5)"
    by (simp add: deselected_facts key_0_5 truthy_prop_def inherited_def
        Object_prototype_names_def)
  from s deselected_disabled(1) deselected_facts n show ?thesis by simp
qed

text \<open>
  C7. When a pointer-up or pointer-cancel of the gesture's own pointer arrives while the
  gesture is still pending and cell input is enabled, the outcome is the given state with
  exactly these changes: the draft buffer has received the one edit at the recorded start
  cell with the recorded value, the gesture and the drawing are reset, and one deferred
  commit of the draft buffer has been queued. No write is issued at that moment, the
  debounce effect is not armed, and the queued commit, when it fires, persists the buffer
  that holds the edit. When cell input is not enabled at that moment, the draft buffer
  receives no edit, no write is issued, and the one commit is queued only if the own row
  is the selected one. In particular a touch that goes down on a cell where input is
  enabled, moves only below the threshold and is then lifted applies that one edit, with
  the value the paint mode gives for the cell, and queues that one commit.
\<close>

theorem pending_tap_one_edit_one_commit:
  "(g_active (touchGesture st) \<and> g_mode (touchGesture st) = Pending \<and>
    \<not> other_pointer (touchGesture st) ev \<and> isCellInputEnabled st \<longrightarrow>
      stopDrawing now err (Some ev) st =
        st\<lparr>draftCells := paint_updater
                           (keyFor (g_startDay (touchGesture st)) (g_startSlot (touchGesture st)))
                           (g_value (touchGesture st)) (draftCells st),
           touchGesture := idle_gesture,
           drawing := (drawing st)\<lparr>d_active := False\<rparr>,
           timers := timers st @ [(80, PersistDraft)]\<rparr> \<and>
      writes (stopDrawing now err (Some ev) st) = writes st \<and>
      \<not> debounceArmed (stopDrawing now err (Some ev) st) \<and>
      (timers st = [] \<longrightarrow>
         fireTimer now' err' (stopDrawing now err (Some ev) st) =
           persistMyCells now' err'
             (paint_updater
                (keyFor (g_startDay (touchGesture st)) (g_startSlot (touchGesture st)))
                (g_value (touchGesture st)) (draftCells st))
             ((stopDrawing now err (Some ev) st)\<lparr>timers := []\<rparr>))) \<and>
   (g_active (touchGesture st) \<and> g_mode (touchGesture st) = Pending \<and>
    \<not> other_pointer (touchGesture st) ev \<and> \<not> isCellInputEnabled st \<longrightarrow>
      draftCells (stopDrawing now err (Some ev) st) = draftCells st \<and>
      writes (stopDrawing now err (Some ev) st) = writes st \<and>
      timers (stopDrawing now err (Some ev) st) =
        (if canEditSelected st then timers st @ [(80, PersistDraft)] else timers st)) \<and>
   (isCellInputEnabled st \<and> is_touch down \<and> pointerId up = pointerId down \<and>
    (\<forall>m \<in> set moves.
       flt (displacement (clientX (snd m)) (clientX down)) TOUCH_GESTURE_START_PX \<and>
       flt (displacement (clientY (snd m)) (clientY down)) TOUCH_GESTURE_START_PX) \<longrightarrow>
      stopDrawing now err (Some up) (pointerMoves moves (onPointerDown d s down st)) =
        st\<lparr>draftCells := paint_updater (keyFor d s)
                           (if paintMode st = Smart
                            then \<not> truthy_prop (displayedCells st) (keyFor d s)
                            else paintMode st = Mark)
                           (draftCells st),
           touchGesture := idle_gesture,
           drawing := (drawing st)\<lparr>d_active := False\<rparr>,
           timers := timers st @ [(80, PersistDraft)]\<rparr>)"
proof -
  have scenario: "stopDrawing now err (Some up) (pointerMoves moves (onPointerDown d s down st)) =
        st\<lparr>draftCells := paint_updater (keyFor d s)
                           (if paintMode st = Smart
                            then \<not> truthy_prop (displayedCells st) (keyFor d s)
                            else paintMode st = Mark)
                           (draftCells st),
           touchGesture := idle_gesture,
           drawing := (drawing st)\<lparr>d_active := False\<rparr>,
           timers := timers st @ [(80, PersistDraft)]\<rparr>"
    if en: "isCellInputEnabled st" and touch: "is_touch down"
      and same: "pointerId up = pointerId down"
      and small: "\<forall>m \<in> set moves.
         flt (displacement (clientX (snd m)) (clientX down)) TOUCH_GESTURE_START_PX \<and>
         flt (displacement (clientY (snd m)) (clientY down)) TOUCH_GESTURE_START_PX"
  proof -
    let ?v = "if paintMode st = Smart
              then \<not> truthy_prop (displayedCells st) (keyFor d s)
              else paintMode st = Mark"
    let ?g = "\<lparr> g_active = True, g_pointerId = Some (pointerId down),
                g_startX = clientX down, g_startY = clientY down,
                g_startDay = d, g_startSlot = s, g_value = ?v, g_mode = Pending \<rparr>"
    let ?p = "st\<lparr>touchGesture := ?g\<rparr>"
    from en touch have down: "onPointerDown d s down st = ?p"
      by (simp add: onPointerDown_def Let_def)
    from small have "pointerMoves moves ?p = ?p"
      by (intro below_threshold_moves_ignored) simp_all
    moreover have "g_active (touchGesture ?p)" "g_mode (touchGesture ?p) = Pending"
      "\<not> other_pointer (touchGesture ?p) up" "isCellInputEnabled ?p"
      using en same by (simp_all add: other_pointer_def)
    note stopDrawing_pending_tap [OF this, of now err]
    ultimately show ?thesis by (simp add: down)
  qed
  have disabled: "draftCells (stopDrawing now err (Some ev) st) = draftCells st \<and>
      writes (stopDrawing now err (Some ev) st) = writes st \<and>
      timers (stopDrawing now err (Some ev) st) =
        (if canEditSelected st then timers st @ [(80, PersistDraft)] else timers st)"
    if "g_active (touchGesture st)" "g_mode (touchGesture st) = Pending"
      "\<not> other_pointer (touchGesture st) ev" "\<not> isCellInputEnabled st"
    using stopDrawing_pending_disabled(1,2,3) [OF that, of now err] by blast
  from stopDrawing_pending_tap [of st ev now err now' err'] scenario disabled show ?thesis
    by blast
qed

theorem pending_tap_one_edit_one_commit_witness:
  "g_active (touchGesture pressed) \<and> g_mode (touchGesture pressed) = Pending \<and>
   \<not> other_pointer (touchGesture pressed) move_slight \<and> isCellInputEnabled pressed \<and>
   timers pressed = [] \<and>
   stopDrawing ''2026-03-03T09:00:00.000Z'' None (Some move_slight) pressed =
     session\<lparr>draftCells := [(''0-3'', JBool True), (''0-2'', JBool True), (''0-5'', JBool True)],
             timers := [(80, PersistDraft)]\<rparr> \<and>
   writes (fireTimer ''2026-03-03T09:00:01.000Z'' None
             (stopDrawing ''2026-03-03T09:00:00.000Z'' None (Some move_slight) pressed)) =
     [\<lparr> upd_team_code = TEAM_CODE, upd_user_id = ''u1'',
        upd_cells = [(''0-3'', JBool True), (''0-2'', JBool True), (''0-5'', JBool True)],
        upd_last_editor = ''Kim'', upd_updated_at = ''2026-03-03T09:00:01.000Z'' \<rparr>] \<and>
   g_active (touchGesture deselected) \<and> g_mode (touchGesture deselected) = Pending \<and>
   \<not> other_pointer (touchGesture deselected) move_slight \<and>
   \<not> isCellInputEnabled deselected \<and> \<not> canEditSelected deselected \<and>
   draftCells (stopDrawing ''2026-03-03T09:00:00.000Z'' None (Some move_slight) deselected) =
     [(''0-3'', JBool True), (''0-2'', JBool True)] \<and>
   timers (stopDrawing ''2026-03-03T09:00:00.000Z'' None (Some move_slight) deselected) = [] \<and>
   isCellInputEnabled session \<and> is_touch touch_down \<and>
   pointerId move_slight = pointerId touch_down \<and>
   flt (displacement (clientX move_slight) (clientX touch_down)) TOUCH_GESTURE_START_PX \<and>
   flt (displacement (clientY move_slight) (clientY touch_down)) TOUCH_GESTURE_START_PX \<and>
   stopDrawing ''2026-03-03T09:00:00.000Z'' None (Some move_slight)
     (pointerMoves [(hit_0_6, move_slight)] (onPointerDown 0 5 touch_down session)) =
     session\<lparr>draftCells := [(''0-3'', JBool True), (''0-2'', JBool True), (''0-5'', JBool True)],
             timers := [(80, PersistDraft)]\<rparr>"
proof -
  let ?cells = "[(''0-3'', JBool True), (''0-2'', JBool True), (''0-5'', JBool True)]"
  let ?stopped = "stopDrawing ''2026-03-03T09:00:00.000Z'' None (Some move_slight) pressed"
  have p: "paint_updater
             (keyFor (g_startDay (touchGesture pressed)) (g_startSlot (touchGesture pressed)))
             (g_value (touchGesture pressed)) (draftCells pressed) = ?cells"
    by (simp add: pressed_facts key_0_5 paint_updater_def truthy_prop_def inherited_def
        Object_prototype_names_def assign_def)
  note t = pending_tap_one_edit_one_commit [where st = pressed and ev = move_slight
      and now = "''2026-03-03T09:00:00.000Z''" and err = None
      and now' = "''2026-03-03T09:00:01.000Z''" and err' = None]
  from t pressed_facts(1,2) pressed_same_pointer(3) pressed_enabled
  have t1: "?stopped =
       pressed\<lparr>draftCells := paint_updater
                           (keyFor (g_startDay (touchGesture pressed))
                              (g_startSlot (touchGesture pressed)))
                           (g_value (touchGesture pressed)) (draftCells pressed),
           touchGesture := idle_gesture,
           drawing := (drawing pressed)\<lparr>d_active := False\<rparr>,
           timers := timers pressed @ [(80, PersistDraft)]\<rparr>"
    and t4: "timers pressed = [] \<longrightarrow>
        fireTimer ''2026-03-03T09:00:01.000Z'' None ?stopped =
          persistMyCells ''2026-03-03T09:00:01.000Z'' None
            (paint_updater
               (keyFor (g_startDay (touchGesture pressed)) (g_startSlot (touchGesture pressed)))
               (g_value (touchGesture pressed)) (draftCells pressed))
            (?stopped\<lparr>timers := []\<rparr>)"
    by blast+
  from t1 p have a: "?stopped =
     session\<lparr>draftCells := ?cells, timers := [(80, PersistDraft)]\<rparr>"
    by (simp add: pressed_facts) (simp add: pressed_eq session_def idle_gesture_def)
  from t4 p pressed_facts(10)
  have f: "fireTimer ''2026-03-03T09:00:01.000Z'' None ?stopped =
      persistMyCells ''2026-03-03T09:00:01.000Z'' None ?cells (?stopped\<lparr>timers := []\<rparr>)"
    by simp
  have "\<not> sameCells (cells member_me) ?cells"
    by (simp add: sameCells_def member_me_def)
  then have b: "writes (fireTimer ''2026-03-03T09:00:01.000Z'' None ?stopped) =
     [\<lparr> upd_team_code = TEAM_CODE, upd_user_id = ''u1'', upd_cells = ?cells,
        upd_last_editor = ''Kim'', upd_updated_at = ''2026-03-03T09:00:01.000Z'' \<rparr>]"
    using f
    by (simp add: a persistMyCells_def session_myMember Let_def)
       (simp add: session_def member_me_def)
  note v = pending_tap_one_edit_one_commit [where st = deselected and ev = move_slight
      and now = "''2026-03-03T09:00:00.000Z''" and err = None]
  from v deselected_facts(1,2,3) deselected_disabled(2)
  have "draftCells (stopDrawing ''2026-03-03T09:00:00.000Z'' None (Some move_slight)
          deselected) = draftCells deselected"
    and "timers (stopDrawing ''2026-03-03T09:00:00.000Z'' None (Some move_slight)
          deselected) =
        (if canEditSelected deselected then timers deselected @ [(80, PersistDraft)]
         else timers deselected)"
    by blast+
  with deselected_disabled(1) deselected_facts(7,8)
  have z: "draftCells (stopDrawing ''2026-03-03T09:00:00.000Z'' None (Some move_slight)
          deselected) = [(''0-3'', JBool True), (''0-2'', JBool True)]"
    "timers (stopDrawing ''2026-03-03T09:00:00.000Z'' None (Some move_slight) deselected) = []"
    by simp_all
  have h: "is_touch touch_down" "pointerId move_slight = pointerId touch_down"
    by (simp_all add: touch_down_def move_slight_def)
  have h2: "flt (displacement (clientX move_slight) (clientX touch_down)) TOUCH_GESTURE_START_PX"
    "flt (displacement (clientY move_slight) (clientY touch_down)) TOUCH_GESTURE_START_PX"
    by (simp_all add: touch_down_def move_slight_def displacement_def gesture_constants
        double_eval)
  then have hs: "\<forall>m \<in> set [(hit_0_6, move_slight)].
      flt (displacement (clientX (snd m)) (clientX touch_down)) TOUCH_GESTURE_START_PX \<and>
      flt (displacement (clientY (snd m)) (clientY touch_down)) TOUCH_GESTURE_START_PX"
    by simp
  note u = pending_tap_one_edit_one_commit [where st = session and down = touch_down and up = move_slight
      and moves = "[(hit_0_6, move_slight)]" and d = 0 and s = 5
      and now = "''2026-03-03T09:00:00.000Z''" and err = None]
  from u session_enabled h(1,2) hs
  have "stopDrawing ''2026-03-03T09:00:00.000Z'' None (Some move_slight)
     (pointerMoves [(hit_0_6, move_slight)] (onPointerDown 0 5 touch_down session)) =
        session\<lparr>draftCells := paint_updater (keyFor 0 5)
                           (if paintMode session = Smart
                            then \<not> truthy_prop (displayedCells session) (keyFor 0 5)
                            else paintMode session = Mark)
                           (draftCells session),
           touchGesture := idle_gesture,
           drawing := (drawing session)\<lparr>d_active := False\<rparr>,
           timers := timers session @ [(80, PersistDraft)]\<rparr>"
    by blast
  moreover have "paintMode session = Smart" "timers session = []"
    "drawing session = \<lparr> d_active = False, d_value = True \<rparr>"
    "touchGesture session = idle_gesture"
    by (simp_all add: session_def)
  moreover have "displayedCells session = draftCells session"
    by (simp add: displayedCells_def selectedMember_def resolvedSelectedMemberId_def
        session_def member_me_def member_other_def)
  moreover have "paint_updater (keyFor 0 5) True (draftCells session) = ?cells"
    using p by (simp add: pressed_facts session_facts)
  moreover have "\<not> truthy_prop (draftCells session) (keyFor 0 5)"
    by (simp add: session_facts key_0_5 truthy_prop_def inherited_def
        Object_prototype_names_def)
  ultimately have c: "stopDrawing ''2026-03-03T09:00:00.000Z'' None (Some move_slight)
     (pointerMoves [(hit_0_6, move_slight)] (onPointerDown 0 5 touch_down session)) =
     session\<lparr>draftCells := ?cells, timers := [(80, PersistDraft)]\<rparr>"
    by (simp add: session_def)
  from pressed_facts(1,2,10) pressed_same_pointer(3) pressed_enabled a b
    deselected_facts(1,2,3) deselected_disabled z session_enabled h h2 c
  show ?thesis by simp
qed

section \<open>Aggregation\<close>

lemma reduce_count:
  "fold (\<lambda>member count. count + (if P member then 1 else 0)) ms n =
     n + length (filter P ms)"
  by (induction ms arbitrary: n) auto

lemma assign_slot_key: "assign acc (keyFor d s) v = AList.update (keyFor d s) v acc"
  by (simp add: assign_def keyFor_not_proto)

lemma counts_inner:
  "map_of (fold (\<lambda>slot counts. assign counts (keyFor d slot) (g (keyFor d slot)))
             slots acc) k =
     (if k \<in> keyFor d ` set slots then Some (g k) else map_of acc k)"
proof (induction slots arbitrary: acc)
  case Nil
  then show ?case by simp
next
  case (Cons s slots)
  show ?case
    unfolding fold.simps o_apply Cons.IH
    by (auto simp: assign_slot_key update_conv')
qed

lemma counts_outer:
  "map_of (fold (\<lambda>d counts.
              fold (\<lambda>slot counts. assign counts (keyFor d slot) (g (keyFor d slot)))
                   slots counts) days acc) k =
     (if \<exists>d \<in> set days. k \<in> keyFor d ` set slots then Some (g k) else map_of acc k)"
proof (induction days arbitrary: acc)
  case Nil
  then show ?case by simp
next
  case (Cons d days)
  show ?case
    unfolding fold.simps o_apply Cons.IH by (auto simp: counts_inner)
qed

lemma grid_key_iff:
  "(\<exists>d \<in> set [0..<m]. k \<in> keyFor d ` set [0..<n]) \<longleftrightarrow>
   (\<exists>d < m. \<exists>s < n. k = keyFor d s)"
  by (simp add: image_iff Bex_def)

lemma availabilityCount_lookup:
  "map_of (availabilityCountByCell mfc) k =
     (if \<exists>d < DAY_COUNT. \<exists>s < SLOT_COUNT. k = keyFor d s
      then Some (length (filter (\<lambda>member. isAvailable member k) mfc)) else None)"
proof -
  have "map_of (availabilityCountByCell mfc) k =
     (if \<exists>d \<in> set [0..<DAY_COUNT]. k \<in> keyFor d ` set [0..<SLOT_COUNT]
      then Some (fold (\<lambda>member count. count + (if isAvailable member k then 1 else 0)) mfc 0)
      else map_of [] k)"
    unfolding availabilityCountByCell_def Let_def
    by (rule counts_outer
        [where g = "\<lambda>key. fold (\<lambda>member count. count + (if isAvailable member key then 1 else 0)) mfc 0"])
  then show ?thesis
    unfolding grid_key_iff by (simp add: reduce_count)
qed

lemma common_inner:
  "key_set (fold (\<lambda>slot common.
                    if Q (keyFor d slot) then assign common (keyFor d slot) (JBool True)
                    else common)
             slots acc) =
     key_set acc \<union> {k \<in> keyFor d ` set slots. Q k}"
proof (induction slots arbitrary: acc)
  case Nil
  then show ?case by simp
next
  case (Cons s slots)
  show ?case
    unfolding fold.simps o_apply Cons.IH
    by (auto simp: assign_slot_key key_set_def dom_update)
qed

lemma common_outer:
  "key_set (fold (\<lambda>d common.
              fold (\<lambda>slot common.
                    if Q (keyFor d slot) then assign common (keyFor d slot) (JBool True)
                    else common)
                   slots common) days acc) =
     key_set acc \<union> {k. (\<exists>d \<in> set days. k \<in> keyFor d ` set slots) \<and> Q k}"
proof (induction days arbitrary: acc)
  case Nil
  then show ?case by simp
next
  case (Cons d days)
  show ?case
    unfolding fold.simps o_apply Cons.IH by (auto simp: common_inner)
qed

lemma genuine_common_inner:
  "genuine acc \<Longrightarrow>
   genuine (fold (\<lambda>slot common.
                    if Q (keyFor d slot) then assign common (keyFor d slot) (JBool True)
                    else common)
             slots acc)"
  by (induction slots arbitrary: acc) (simp_all add: genuine_assign)

lemma genuine_common_outer:
  "genuine acc \<Longrightarrow>
   genuine (fold (\<lambda>d common.
              fold (\<lambda>slot common.
                    if Q (keyFor d slot) then assign common (keyFor d slot) (JBool True)
                    else common)
                   slots common) days acc)"
  by (induction days arbitrary: acc) (simp_all add: genuine_common_inner)

lemma genuine_commonCells: "genuine (commonCells mfc counts)"
proof -
  have "genuine []" by (simp add: genuine_def)
  then show ?thesis
    unfolding commonCells_def Let_def
    by (simp add: genuine_common_outer
        [where Q = "\<lambda>key. map_of counts key = Some (length mfc)"])
qed

lemma commonCells_keys:
  "mfc \<noteq> [] \<Longrightarrow>
   key_set (commonCells mfc counts) =
     {k. (\<exists>d < DAY_COUNT. \<exists>s < SLOT_COUNT. k = keyFor d s) \<and>
         map_of counts k = Some (length mfc)}"
proof -
  assume "mfc \<noteq> []"
  then have "key_set (commonCells mfc counts) =
      {k. (\<exists>d \<in> set [0..<DAY_COUNT]. k \<in> keyFor d ` set [0..<SLOT_COUNT]) \<and>
         map_of counts k = Some (length mfc)}"
    unfolding commonCells_def Let_def
    by (simp add: common_outer [where Q = "\<lambda>key. map_of counts key = Some (length mfc)"])
       (simp add: key_set_def)
  then show ?thesis unfolding grid_key_iff .
qed

lemma isAvailable_override:
  "isAvailable (if user_id m = u then m\<lparr>cells := dc\<rparr> else m) k =
     truthy_prop (if user_id m = u then dc else cells m) k"
  by (simp add: isAvailable_def)

lemma key_0_3: "keyFor 0 3 = ''0-3''"
  by (simp add: keyFor_def numstr.simps digit_def)

lemma grid_bounds: "(0::nat) < DAY_COUNT" "(2::nat) < SLOT_COUNT" "(3::nat) < SLOT_COUNT"
  "(5::nat) < SLOT_COUNT"
  by (simp_all add: DAY_COUNT_def SLOT_COUNT_def END_HOUR_def START_HOUR_def SLOT_MINUTES_def)

lemma editing_facts:
  "members editing = [member_other, member_me]" "userId editing = ''u1''"
  "draftCells editing = [(''0-3'', JBool True), (''0-5'', JBool True)]"
  by (simp_all add: editing_def session_def)

lemma member_other_facts:
  "cells member_other = [(''0-3'', JBool True), (''1-0'', JBool True)]"
  "user_id member_other = ''u2''" "user_id member_me = ''u1''"
  by (simp_all add: member_other_def member_me_def)

text \<open>
  C1. Let the draft buffer and the cells of every member be genuine sets. For every slot
  key of the grid, the computed availability count is the number of members whose cell
  set contains the key, the local user's cell set being the draft buffer. With at least
  one member, the keys of the common record are exactly the keys whose count equals the
  number of members; with no member the common record is empty. The common record is a
  genuine set.
\<close>

theorem aggregation_counts_and_common:
  assumes "genuine (draftCells st)" and "\<forall>m \<in> set (members st). genuine (cells m)"
  shows
    "(\<forall>d < DAY_COUNT. \<forall>s < SLOT_COUNT.
        map_of (availabilityCountByCell (membersForCalculation st)) (keyFor d s) =
          Some (length (filter
                  (\<lambda>m. keyFor d s \<in> key_set (if user_id m = userId st then draftCells st
                                               else cells m))
                  (members st)))) \<and>
     (members st \<noteq> [] \<longrightarrow>
        key_set (commonCells (membersForCalculation st)
                   (availabilityCountByCell (membersForCalculation st))) =
          {k. map_of (availabilityCountByCell (membersForCalculation st)) k =
                Some (length (members st))}) \<and>
     (members st = [] \<longrightarrow>
        commonCells (membersForCalculation st)
          (availabilityCountByCell (membersForCalculation st)) = []) \<and>
     genuine (commonCells (membersForCalculation st)
                (availabilityCountByCell (membersForCalculation st)))"
proof -
  let ?mfc = "membersForCalculation st"
  have len: "length ?mfc = length (members st)"
    by (simp add: membersForCalculation_def)
  have counts: "map_of (availabilityCountByCell ?mfc) (keyFor d s) =
          Some (length (filter
                  (\<lambda>m. keyFor d s \<in> key_set (if user_id m = userId st then draftCells st
                                               else cells m))
                  (members st)))" if "d < DAY_COUNT" and "s < SLOT_COUNT" for d s
  proof -
    have "filter (\<lambda>member. isAvailable member (keyFor d s)) ?mfc =
        map (\<lambda>member. if user_id member = userId st
                        then member\<lparr>cells := draftCells st\<rparr> else member)
          (filter (\<lambda>m. truthy_prop (if user_id m = userId st then draftCells st else cells m)
                         (keyFor d s)) (members st))"
      by (simp add: membersForCalculation_def filter_map o_def isAvailable_override)
    moreover have "filter (\<lambda>m. truthy_prop (if user_id m = userId st then draftCells st
                                              else cells m) (keyFor d s)) (members st) =
        filter (\<lambda>m. keyFor d s \<in> key_set (if user_id m = userId st then draftCells st
                                               else cells m)) (members st)"
      using assms by (intro filter_cong) (auto simp: genuine_truthy_prop keyFor_not_inherited)
    ultimately show ?thesis
      using that by (auto simp: availabilityCount_lookup)
  qed
  have common: "key_set (commonCells ?mfc (availabilityCountByCell ?mfc)) =
          {k. map_of (availabilityCountByCell ?mfc) k = Some (length (members st))}"
    if "members st \<noteq> []"
  proof -
    from that have "?mfc \<noteq> []" by (simp add: membersForCalculation_def)
    then show ?thesis
      by (auto simp: commonCells_keys availabilityCount_lookup len split: if_splits)
  qed
  have empty: "commonCells ?mfc (availabilityCountByCell ?mfc) = []" if "members st = []"
    using that by (simp add: commonCells_def membersForCalculation_def)
  from counts common empty genuine_commonCells show ?thesis by blast
qed

theorem aggregation_counts_and_common_witness:
  "genuine (draftCells editing) \<and> members editing = [member_other, member_me] \<and>
   genuine (cells member_other) \<and> genuine (cells member_me) \<and>
   map_of (availabilityCountByCell (membersForCalculation editing)) ''0-3'' = Some 2 \<and>
   map_of (availabilityCountByCell (membersForCalculation editing)) ''0-5'' = Some 1 \<and>
   map_of (availabilityCountByCell (membersForCalculation editing)) ''0-2'' = Some 0 \<and>
   ''0-3'' \<in> key_set (commonCells (membersForCalculation editing)
                 (availabilityCountByCell (membersForCalculation editing))) \<and>
   ''0-5'' \<notin> key_set (commonCells (membersForCalculation editing)
                 (availabilityCountByCell (membersForCalculation editing))) \<and>
   members (editing\<lparr>members := []\<rparr>) = [] \<and>
   commonCells (membersForCalculation (editing\<lparr>members := []\<rparr>))
     (availabilityCountByCell (membersForCalculation (editing\<lparr>members := []\<rparr>))) = []"
proof -
  let ?counts = "availabilityCountByCell (membersForCalculation editing)"
  have g: "genuine (draftCells editing)" "\<forall>m \<in> set (members editing). genuine (cells m)"
    by (simp_all add: editing_facts genuine_def member_me_facts member_other_facts)
  have g0: "genuine (draftCells (editing\<lparr>members := []\<rparr>))"
    "\<forall>m \<in> set (members (editing\<lparr>members := []\<rparr>)). genuine (cells m)"
    by (simp_all add: editing_facts genuine_def)
  note t = aggregation_counts_and_common [OF g]
  from t grid_bounds have
    "map_of ?counts (keyFor 0 3) =
       Some (length (filter
               (\<lambda>m. keyFor 0 3 \<in> key_set (if user_id m = userId editing
                                            then draftCells editing else cells m))
               (members editing)))"
    by blast
  then have c3: "map_of ?counts ''0-3'' = Some 2"
    by (simp add: key_0_3 editing_facts member_other_facts member_me_facts key_set_def)
  from t grid_bounds have
    "map_of ?counts (keyFor 0 5) =
       Some (length (filter
               (\<lambda>m. keyFor 0 5 \<in> key_set (if user_id m = userId editing
                                            then draftCells editing else cells m))
               (members editing)))"
    by blast
  then have c5: "map_of ?counts ''0-5'' = Some 1"
    by (simp add: key_0_5 editing_facts member_other_facts member_me_facts key_set_def)
  from t grid_bounds have
    "map_of ?counts (keyFor 0 2) =
       Some (length (filter
               (\<lambda>m. keyFor 0 2 \<in> key_set (if user_id m = userId editing
                                            then draftCells editing else cells m))
               (members editing)))"
    by blast
  then have c2: "map_of ?counts ''0-2'' = Some 0"
    by (simp add: key_0_2 editing_facts member_other_facts member_me_facts key_set_def)
  have ne: "members editing \<noteq> []" by (simp add: editing_facts)
  with t have "key_set (commonCells (membersForCalculation editing) ?counts) =
      {k. map_of ?counts k = Some (length (members editing))}" by blast
  with c3 c5 have k: "''0-3'' \<in> key_set (commonCells (membersForCalculation editing) ?counts)"
    "''0-5'' \<notin> key_set (commonCells (membersForCalculation editing) ?counts)"
    by (simp_all add: editing_facts)
  have e: "members (editing\<lparr>members := []\<rparr>) = []" by simp
  with aggregation_counts_and_common [OF g0]
  have z: "commonCells (membersForCalculation (editing\<lparr>members := []\<rparr>))
     (availabilityCountByCell (membersForCalculation (editing\<lparr>members := []\<rparr>))) = []"
    by blast
  have gm: "genuine (cells member_other)" "genuine (cells member_me)"
    by (simp_all add: genuine_def member_me_facts member_other_facts)
  from g(1) gm editing_facts(1) c3 c5 c2 k e z show ?thesis by simp
qed

section \<open>Contiguous blocks\<close>

lemma closed_run_unique:
  assumes "closed_run c a b" and "closed_run c a' b"
  shows "a = a'"
proof (rule ccontr)
  assume ne: "a \<noteq> a'"
  have aux: False if "closed_run c x b" and "closed_run c y b" and "x < y" for x y
  proof -
    from that have "x \<le> y - 1" and "y - 1 < b" and "y \<noteq> 0"
      by (auto simp: closed_run_def)
    with that(1) have "c (y - 1)" by (simp add: closed_run_def)
    with that(2) \<open>y \<noteq> 0\<close> show False by (simp add: closed_run_def)
  qed
  from ne consider "a < a'" | "a' < a" by (auto simp: neq_iff)
  then show False using aux assms by cases blast+
qed

lemma closed_runs_Suc:
  "{block_of d a b | a b. closed_run c a b \<and> b < Suc j \<and> P a b} =
   {block_of d a b | a b. closed_run c a b \<and> b < j \<and> P a b} \<union>
   {block_of d a j | a. closed_run c a j \<and> P a j}"
  by (auto simp: less_Suc_eq)

lemma scan_slot_common:
  "(slot < SLOT_COUNT \<and>
    truthy_prop cc (if slot < SLOT_COUNT then keyFor d slot else [])) = common_at cc d slot"
  by (auto simp: common_at_def)

lemma scan_slot_step:
  "scan_slot cc ms d slot (start, blocks) =
     (if common_at cc d slot then ((if start < 0 then int slot else start), blocks)
      else if 0 \<le> start
           then (- 1, if ms \<le> int slot - start
                       then blocks @ [\<lparr> day = d, startSlot = start, endSlot = int slot,
                                         minutes = (int slot - start) * int SLOT_MINUTES \<rparr>]
                       else blocks)
           else (start, blocks))"
  unfolding scan_slot_def Let_def fst_conv snd_conv scan_slot_common by simp

lemma scan_inv_step:
  assumes inv: "scan_inv (common_at cc d) ms d init j acc"
  shows "scan_inv (common_at cc d) ms d init (Suc j) (scan_slot cc ms d j acc)"
proof -
  let ?c = "common_at cc d"
  obtain start blocks where acc: "acc = (start, blocks)" by (cases acc)
  from inv acc have blocks:
    "set blocks = init \<union>
       {block_of d a b | a b. closed_run ?c a b \<and> b < j \<and> ms \<le> int b - int a}"
    by (simp add: scan_inv_def)
  from inv acc consider
      (idle) "start = - 1" "j = 0 \<or> \<not> ?c (j - 1)"
    | (run) a where "start = int a" "a < j" "\<forall>s. a \<le> s \<and> s < j \<longrightarrow> ?c s"
        "a = 0 \<or> \<not> ?c (a - 1)"
    by (auto simp: scan_inv_def)
  then show ?thesis
  proof cases
    case idle
    have none: "{block_of d a j | a. closed_run ?c a j \<and> ms \<le> int j - int a} = {}"
    proof -
      have "\<not> closed_run ?c a j" for a
      proof
        assume cr: "closed_run ?c a j"
        then have "a \<le> j - 1" "j - 1 < j" "j \<noteq> 0" by (auto simp: closed_run_def)
        with cr have "?c (j - 1)" by (simp add: closed_run_def)
        with idle(2) \<open>j \<noteq> 0\<close> show False by simp
      qed
      then show ?thesis by simp
    qed
    show ?thesis
    proof (cases "?c j")
      case True
      with idle have st: "scan_slot cc ms d j acc = (int j, blocks)"
        by (simp add: acc scan_slot_step)
      have "\<forall>s. j \<le> s \<and> s < Suc j \<longrightarrow> ?c s"
        using True by (auto simp: less_Suc_eq)
      with idle(2) have "\<exists>a'. int j = int a' \<and> a' < Suc j \<and>
          (\<forall>s. a' \<le> s \<and> s < Suc j \<longrightarrow> ?c s) \<and> (a' = 0 \<or> \<not> ?c (a' - 1))"
        by (intro exI [of _ j]) simp
      then show ?thesis
        using blocks by (simp add: st scan_inv_def closed_runs_Suc none)
    next
      case False
      with idle have "scan_slot cc ms d j acc = (- 1, blocks)"
        by (simp add: acc scan_slot_step)
      then show ?thesis
        using False blocks by (simp add: scan_inv_def closed_runs_Suc none)
    qed
  next
    case run
    show ?thesis
    proof (cases "?c j")
      case True
      with run have st: "scan_slot cc ms d j acc = (int a, blocks)"
        by (simp add: acc scan_slot_step)
      have none: "{block_of d a' j | a'. closed_run ?c a' j \<and> ms \<le> int j - int a'} = {}"
        using True by (auto simp: closed_run_def)
      have "\<forall>s. a \<le> s \<and> s < Suc j \<longrightarrow> ?c s"
        using run(3) True by (auto simp: less_Suc_eq)
      with run(2,4) have "\<exists>a'. int a = int a' \<and> a' < Suc j \<and>
          (\<forall>s. a' \<le> s \<and> s < Suc j \<longrightarrow> ?c s) \<and> (a' = 0 \<or> \<not> ?c (a' - 1))"
        by (intro exI [of _ a]) simp
      then show ?thesis
        using blocks by (simp add: st scan_inv_def closed_runs_Suc none)
    next
      case False
      with run have st: "scan_slot cc ms d j acc =
          (- 1, if ms \<le> int j - int a then blocks @ [block_of d a j] else blocks)"
        by (simp add: acc scan_slot_step block_of_def)
      have cr: "closed_run ?c a j"
        using run False by (simp add: closed_run_def)
      have one: "{block_of d a' j | a'. closed_run ?c a' j \<and> ms \<le> int j - int a'} =
          (if ms \<le> int j - int a then {block_of d a j} else {})"
      proof -
        have "closed_run ?c a' j \<longleftrightarrow> a' = a" for a'
          using cr closed_run_unique [OF _ cr] by blast
        then show ?thesis by simp
      qed
      show ?thesis
        using False blocks by (simp add: st scan_inv_def closed_runs_Suc one)
    qed
  qed
qed

lemma scan_inv_fold:
  "scan_inv (common_at cc d) ms d (set blocks) j
     (fold (scan_slot cc ms d) [0..<j] (- 1, blocks))"
proof (induction j)
  case 0
  show ?case by (simp add: scan_inv_def)
next
  case (Suc j)
  from scan_inv_step [OF Suc] show ?case by simp
qed

lemma closed_is_maximal:
  "(closed_run (common_at cc d) a b \<and> b < SLOT_COUNT + 1) =
     maximal_run (common_at cc d) SLOT_COUNT a b"
  by (auto simp: closed_run_def maximal_run_def common_at_def)

lemma scan_day:
  "set (snd (fold (scan_slot cc ms d) [0..<SLOT_COUNT + 1] (- 1, blocks))) =
     set blocks \<union>
     {block_of d a b | a b. maximal_run (common_at cc d) SLOT_COUNT a b \<and> ms \<le> int b - int a}"
proof -
  from scan_inv_fold [of cc d ms blocks "SLOT_COUNT + 1"]
  have "set (snd (fold (scan_slot cc ms d) [0..<SLOT_COUNT + 1] (- 1, blocks))) =
     set blocks \<union>
     {block_of d a b | a b. (closed_run (common_at cc d) a b \<and> b < SLOT_COUNT + 1) \<and>
        ms \<le> int b - int a}"
    by (simp add: scan_inv_def)
  then show ?thesis unfolding closed_is_maximal .
qed

lemma scan_days:
  "set (fold (\<lambda>d blocks. snd (fold (scan_slot cc ms d) [0..<SLOT_COUNT + 1] (- 1, blocks)))
          days init) =
     set init \<union>
     {block_of d a b | d a b. d \<in> set days \<and>
        maximal_run (common_at cc d) SLOT_COUNT a b \<and> ms \<le> int b - int a}"
proof (induction days arbitrary: init)
  case Nil
  show ?case by simp
next
  case (Cons d days)
  show ?case
    unfolding fold.simps o_apply Cons.IH scan_day by auto
qed

lemma recommendedBlocks_set:
  assumes ne: "mfc \<noteq> []"
  shows "set (recommendedBlocks mfc cc md) =
     {block_of d a b | d a b. d < DAY_COUNT \<and>
        maximal_run (common_at cc d) SLOT_COUNT a b \<and>
        max 1 (md div int SLOT_MINUTES) \<le> int b - int a}"
proof -
  from ne have len: "length mfc \<noteq> 0" by simp
  have "recommendedBlocks mfc cc md =
      fold (\<lambda>d blocks.
                   snd (fold (scan_slot cc (max 1 (md div int SLOT_MINUTES)) d)
                          [0..<SLOT_COUNT + 1] (- 1, blocks)))
             [0..<DAY_COUNT] []"
    unfolding recommendedBlocks_def Let_def using len by (rule if_not_P)
  then have "set (recommendedBlocks mfc cc md) =
     set [] \<union>
     {block_of d a b | d a b. d \<in> set [0..<DAY_COUNT] \<and>
        maximal_run (common_at cc d) SLOT_COUNT a b \<and>
        max 1 (md div int SLOT_MINUTES) \<le> int b - int a}"
    by (simp only: scan_days)
  then show ?thesis by simp
qed

lemma whole_slots_threshold:
  assumes "int SLOT_MINUTES dvd md" and "a < b"
  shows "max 1 (md div int SLOT_MINUTES) \<le> int b - int a \<longleftrightarrow>
         md \<le> (int b - int a) * int SLOT_MINUTES"
proof -
  from assms(1) obtain q where q: "md = 30 * q" by (auto simp: dvd_def SLOT_MINUTES_def)
  then have "md div 30 = q" by simp
  moreover from assms(2) have "1 \<le> int b - int a" by simp
  ultimately show ?thesis
    unfolding SLOT_MINUTES_def q by (auto simp: max_def)
qed

subsection \<open>Running the scan on given cells\<close>

lemma days_list: "[0..<DAY_COUNT] = [0, 1, 2, 3, 4, 5, 6]"
  unfolding DAY_COUNT_def by (simp add: upt_rec)

lemma slot_count_16: "SLOT_COUNT = 16"
  by (simp add: SLOT_COUNT_def END_HOUR_def START_HOUR_def SLOT_MINUTES_def)

lemma slots_list:
  "[0..<SLOT_COUNT + 1] = [0, 1, 2, 3, 4, 5, 6, 7, 8, 9, 10, 11, 12, 13, 14, 15, 16]"
  unfolding slot_count_16 by (simp add: upt_rec)

lemma numstr_hd_nonzero: "n \<noteq> 0 \<Longrightarrow> hd (numstr n) \<noteq> CHR ''0''"
proof (induction n rule: numstr.induct)
  case (1 n)
  show ?case
  proof (cases "n < 10")
    case True
    with 1(2) have "n \<in> {1, 2, 3, 4, 5, 6, 7, 8, 9}" by auto
    then have "digit n \<noteq> CHR ''0''" by (auto simp: digit_def)
    with True show ?thesis by (subst numstr.simps) simp
  next
    case False
    then have "n div 10 \<noteq> 0" by simp
    with 1(1) False have "hd (numstr (n div 10)) \<noteq> CHR ''0''" by simp
    with False show ?thesis by (subst numstr.simps) (simp add: numstr_nonempty)
  qed
qed

lemma other_day_key: "d \<noteq> 0 \<Longrightarrow> hd (keyFor d s) \<noteq> CHR ''0''"
  by (simp add: keyFor_def numstr_nonempty numstr_hd_nonzero)

lemma first_char_miss:
  "\<forall>k' \<in> key_set cc. hd k' \<noteq> hd k \<Longrightarrow> map_of cc k = None"
  by (auto simp: key_set_def map_of_eq_None_iff)

lemma other_day_not_common:
  assumes "d \<noteq> 0" and "\<forall>k' \<in> key_set cc. hd k' = CHR ''0''"
  shows "\<not> common_at cc d s"
proof -
  from assms other_day_key [of d s] have "map_of cc (keyFor d s) = None"
    by (intro first_char_miss) auto
  then show ?thesis
    by (simp add: common_at_def truthy_prop_def keyFor_not_inherited)
qed

lemma scan_skip_day:
  "(\<And>s. \<not> common_at cc d s) \<Longrightarrow>
   fold (scan_slot cc ms d) slots (- 1, blocks) = (- 1, blocks)"
  by (induction slots) (simp_all add: scan_slot_step)

lemma recommendedBlocks_unfold:
  assumes "mfc \<noteq> []"
  shows "recommendedBlocks mfc cc md =
      fold (\<lambda>d blocks.
              snd (fold (scan_slot cc (max 1 (md div int SLOT_MINUTES)) d)
                     [0..<SLOT_COUNT + 1] (- 1, blocks)))
           [0..<DAY_COUNT] []"
proof -
  from assms have "length mfc \<noteq> 0" by simp
  then show ?thesis unfolding recommendedBlocks_def Let_def by (rule if_not_P)
qed

lemma fold_days:
  "fold F [0, 1, 2, 3, 4, 5, 6 :: nat] x = F 6 (F 5 (F 4 (F 3 (F 2 (F 1 (F 0 x))))))"
  by simp

lemma scan_day_0:
  "fold (scan_slot day_common 2 0)
     [0, 1, 2, 3, 4, 5, 6, 7, 8, 9, 10, 11, 12, 13, 14, 15, 16] (- 1, blocks) =
     (- 1, blocks @ [\<lparr> day = 0, startSlot = 2, endSlot = 5, minutes = 90 \<rparr>,
                     \<lparr> day = 0, startSlot = 7, endSlot = 9, minutes = 60 \<rparr>])"
  by (simp add: scan_slot_def Let_def slot_count_16 SLOT_MINUTES_def keyFor_def numstr.simps
      digit_def truthy_prop_def day_common_def inherited_def Object_prototype_names_def)

lemma blocks_example_eval:
  "recommendedBlocks [member_me] day_common 60 =
     [\<lparr> day = 0, startSlot = 2, endSlot = 5, minutes = 90 \<rparr>,
      \<lparr> day = 0, startSlot = 7, endSlot = 9, minutes = 60 \<rparr>]"
proof -
  have ms: "max 1 (60 div int SLOT_MINUTES) = 2" by (simp add: SLOT_MINUTES_def)
  have ne: "[member_me] \<noteq> []" by simp
  have nz: "(1::nat) \<noteq> 0" "(2::nat) \<noteq> 0" "(3::nat) \<noteq> 0" "(4::nat) \<noteq> 0"
    "(5::nat) \<noteq> 0" "(6::nat) \<noteq> 0" by simp_all
  have zero: "\<forall>k' \<in> key_set day_common. hd k' = CHR ''0''"
    by (simp add: key_set_def day_common_def)
  have skip: "snd (fold (scan_slot day_common 2 d) slots (- 1, blocks)) = blocks"
    if "d \<noteq> 0" for d slots blocks
    using scan_skip_day [of day_common d] other_day_not_common [OF that zero] by simp
  have "recommendedBlocks [member_me] day_common 60 =
      fold (\<lambda>d blocks.
              snd (fold (scan_slot day_common 2 d)
                     [0, 1, 2, 3, 4, 5, 6, 7, 8, 9, 10, 11, 12, 13, 14, 15, 16] (- 1, blocks)))
           [0, 1, 2, 3, 4, 5, 6] []"
    unfolding recommendedBlocks_unfold [OF ne] ms days_list slots_list ..
  also have "\<dots> = [\<lparr> day = 0, startSlot = 2, endSlot = 5, minutes = 90 \<rparr>,
      \<lparr> day = 0, startSlot = 7, endSlot = 9, minutes = 60 \<rparr>]"
    unfolding fold_days
    by (simp only: scan_day_0 nz [THEN skip] snd_conv append_Nil)
  finally show ?thesis .
qed

subsection \<open>Order of the emitted blocks\<close>

lemma scan_slot_sorted:
  assumes "sorted_wrt block_before (snd acc)"
    and "\<forall>b \<in> set (snd acc). day b < d \<or> (day b = d \<and> endSlot b < int j)"
  shows "sorted_wrt block_before (snd (scan_slot cc ms d j acc)) \<and>
         (\<forall>b \<in> set (snd (scan_slot cc ms d j acc)).
            day b < d \<or> (day b = d \<and> endSlot b < int (Suc j)))"
proof -
  obtain start blocks where acc: "acc = (start, blocks)" by (cases acc)
  from assms acc have s: "sorted_wrt block_before blocks"
    and b: "\<forall>b \<in> set blocks. day b < d \<or> (day b = d \<and> endSlot b < int j)" by simp_all
  let ?new = "\<lparr> day = d, startSlot = start, endSlot = int j,
                 minutes = (int j - start) * int SLOT_MINUTES \<rparr>"
  from b have before: "\<forall>x \<in> set blocks. block_before x ?new"
    by (auto simp: block_before_def)
  from b have later: "\<forall>b \<in> set blocks. day b < d \<or> (day b = d \<and> endSlot b < int (Suc j))"
    by auto
  from s before have s': "sorted_wrt block_before (blocks @ [?new])"
    by (simp add: sorted_wrt_append)
  from later have later': "\<forall>b \<in> set (blocks @ [?new]).
      day b < d \<or> (day b = d \<and> endSlot b < int (Suc j))"
    by simp
  from s later s' later' show ?thesis
    unfolding acc scan_slot_step by (simp only: snd_conv split: if_splits) simp
qed

lemma scan_day_sorted:
  assumes "sorted_wrt block_before blocks" and "\<forall>b \<in> set blocks. day b < d"
  shows "sorted_wrt block_before (snd (fold (scan_slot cc ms d) [0..<j] (- 1, blocks))) \<and>
         (\<forall>b \<in> set (snd (fold (scan_slot cc ms d) [0..<j] (- 1, blocks))).
            day b < d \<or> (day b = d \<and> endSlot b < int j))"
proof (induction j)
  case 0
  from assms show ?case by simp
next
  case (Suc j)
  from scan_slot_sorted [of "fold (scan_slot cc ms d) [0..<j] (- 1, blocks)" d j cc ms] Suc
  show ?case by simp
qed

lemma scan_days_sorted:
  "sorted_wrt block_before
     (fold (\<lambda>d blocks. snd (fold (scan_slot cc ms d) [0..<n] (- 1, blocks))) [0..<m] []) \<and>
   (\<forall>b \<in> set (fold (\<lambda>d blocks. snd (fold (scan_slot cc ms d) [0..<n] (- 1, blocks)))
                  [0..<m] []). day b < m)"
proof (induction m)
  case 0
  show ?case by simp
next
  case (Suc m)
  let ?prev = "fold (\<lambda>d blocks. snd (fold (scan_slot cc ms d) [0..<n] (- 1, blocks))) [0..<m] []"
  from Suc have "sorted_wrt block_before ?prev" and "\<forall>b \<in> set ?prev. day b < m" by simp_all
  from scan_day_sorted [OF this, of cc ms n]
  have "sorted_wrt block_before (snd (fold (scan_slot cc ms m) [0..<n] (- 1, ?prev)))"
    and "\<forall>b \<in> set (snd (fold (scan_slot cc ms m) [0..<n] (- 1, ?prev))). day b < Suc m"
    by auto
  then show ?case by simp
qed

lemma sorted_blocks_distinct: "sorted_wrt block_before xs \<Longrightarrow> distinct xs"
  by (induction xs) (auto simp: block_before_def)

lemma recommendedBlocks_sorted: "sorted_wrt block_before (recommendedBlocks mfc cc md)"
proof (cases "mfc = []")
  case True
  then show ?thesis by (simp add: recommendedBlocks_def)
next
  case False
  from scan_days_sorted [of cc "max 1 (md div int SLOT_MINUTES)" "SLOT_COUNT + 1" DAY_COUNT]
  show ?thesis unfolding recommendedBlocks_unfold [OF False] by blast
qed

lemma lone_common:
  "common_at [(''0-10'', JBool True)] 0 10"
  "\<not> common_at [(''0-10'', JBool True)] 0 9"
  "\<not> common_at [(''0-10'', JBool True)] 0 11"
  by (simp_all add: common_at_def slot_count_16 keyFor_def numstr.simps digit_def
      truthy_prop_def inherited_def Object_prototype_names_def)

lemma lone_run: "maximal_run (common_at [(''0-10'', JBool True)] 0) SLOT_COUNT 10 11"
proof -
  have "common_at [(''0-10'', JBool True)] 0 s" if "10 \<le> s \<and> s < 11" for s
  proof -
    from that have "s = 10" by simp
    with lone_common(1) show ?thesis by simp
  qed
  then show ?thesis
    by (simp add: maximal_run_def slot_count_16 lone_common)
qed

lemma day_common_at:
  "\<not> common_at day_common 0 1" "common_at day_common 0 2" "common_at day_common 0 3"
  "common_at day_common 0 4" "\<not> common_at day_common 0 5"
  by (simp_all add: common_at_def slot_count_16 keyFor_def numstr.simps digit_def
      truthy_prop_def day_common_def inherited_def Object_prototype_names_def)

lemma day_common_run: "maximal_run (common_at day_common 0) SLOT_COUNT 2 5"
proof -
  have "common_at day_common 0 s" if "2 \<le> s \<and> s < 5" for s
  proof -
    from that have "s = 2 \<or> s = 3 \<or> s = 4" by auto
    with day_common_at show ?thesis by auto
  qed
  then show ?thesis
    by (simp add: maximal_run_def slot_count_16 day_common_at day_common_at(1) [simplified])
qed

lemma boundary_common_at:
  "\<not> common_at [(''0-15'', JBool True), (''1-0'', JBool True)] 0 14"
  "common_at [(''0-15'', JBool True), (''1-0'', JBool True)] 0 15"
  "common_at [(''0-15'', JBool True), (''1-0'', JBool True)] 1 0"
  "\<not> common_at [(''0-15'', JBool True), (''1-0'', JBool True)] 1 1"
  by (simp_all add: common_at_def slot_count_16 keyFor_def numstr.simps digit_def
      truthy_prop_def inherited_def Object_prototype_names_def)

lemma boundary_runs:
  "maximal_run (common_at [(''0-15'', JBool True), (''1-0'', JBool True)] 0) SLOT_COUNT 15 16"
  "maximal_run (common_at [(''0-15'', JBool True), (''1-0'', JBool True)] 1) SLOT_COUNT 0 1"
proof -
  let ?cc = "[(''0-15'', JBool True), (''1-0'', JBool True)]"
  have "common_at ?cc 0 s" if "15 \<le> s \<and> s < 16" for s
  proof -
    from that have "s = 15" by simp
    with boundary_common_at(2) show ?thesis by simp
  qed
  then show "maximal_run (common_at ?cc 0) SLOT_COUNT 15 16"
    by (simp add: maximal_run_def slot_count_16 boundary_common_at)
  show "maximal_run (common_at ?cc 1) SLOT_COUNT 0 1"
    by (simp add: maximal_run_def slot_count_16 boundary_common_at(3,4) [simplified])
qed

lemma no_run_in_empty: "\<not> maximal_run (common_at [] d) n a b"
proof
  assume "maximal_run (common_at [] d) n a b"
  then have "common_at [] d a" by (simp add: maximal_run_def)
  then show False
    by (simp add: common_at_def truthy_prop_def keyFor_not_inherited)
qed

lemma multiples_offered: "list_all (\<lambda>md. int SLOT_MINUTES dvd md) DURATION_OPTIONS"
  by (simp add: DURATION_OPTIONS_def SLOT_MINUTES_def)

lemma recommendedBlocks_whole_slots:
  assumes ne: "mfc \<noteq> []" and dvd: "int SLOT_MINUTES dvd md"
  shows "set (recommendedBlocks mfc cc md) =
        {block_of d a b | d a b. d < DAY_COUNT \<and>
           maximal_run (common_at cc d) SLOT_COUNT a b \<and>
           md \<le> minutes (block_of d a b)}"
proof -
  have "(maximal_run (common_at cc d) SLOT_COUNT a b \<and>
          max 1 (md div int SLOT_MINUTES) \<le> int b - int a) \<longleftrightarrow>
        (maximal_run (common_at cc d) SLOT_COUNT a b \<and> md \<le> minutes (block_of d a b))"
    for d a b
  proof (cases "a < b")
    case True
    from whole_slots_threshold [OF dvd True] show ?thesis by (simp add: block_of_def)
  next
    case False
    then show ?thesis by (simp add: maximal_run_def)
  qed
  then show ?thesis unfolding recommendedBlocks_set [OF ne] by simp
qed

text \<open>
  The threshold is counted in whole slots, rounded down (and at least one): for a
  minimum duration that is not a multiple of \<open>SLOT_MINUTES\<close> a block's minutes may fall
  short of it. With a minimum of 45 minutes a lone common slot would be emitted as a block
  of 30 minutes; the duration selector offers no such value.
\<close>

lemma lone_slot_at_45_minutes:
  "\<lparr> day = 0, startSlot = 10, endSlot = 11, minutes = 30 \<rparr>
     \<in> set (recommendedBlocks [member_me] [(''0-10'', JBool True)] 45) \<and>
   45 \<notin> set DURATION_OPTIONS"
proof -
  have ne: "[member_me] \<noteq> []" by simp
  have "block_of 0 10 11 \<in>
      {block_of d a b | d a b. d < DAY_COUNT \<and>
         maximal_run (common_at [(''0-10'', JBool True)] d) SLOT_COUNT a b \<and>
         max 1 (45 div int SLOT_MINUTES) \<le> int b - int a}"
    using lone_run
    by (intro CollectI exI [of _ 0] exI [of _ 10] exI [of _ 11])
       (simp add: DAY_COUNT_def SLOT_MINUTES_def)
  then have "block_of 0 10 11 \<in>
      set (recommendedBlocks [member_me] [(''0-10'', JBool True)] 45)"
    unfolding recommendedBlocks_set [OF ne] .
  then show ?thesis by (simp add: block_of_def SLOT_MINUTES_def DURATION_OPTIONS_def)
qed

text \<open>
  C2. For every member list, every record of counts and every minimum duration that is a
  multiple of \<open>SLOT_MINUTES\<close>, as each of the offered durations 30, 60, 90 and 120 is,
  the blocks extracted from the common cells are exactly those of the maximal runs of
  consecutive common slots within one day's slots \<open>0..SLOT_COUNT\<close>, each day scanned on
  its own, whose minutes meet or exceed the minimum duration; a block carries its day,
  first slot, end slot (exclusive) and the run length times \<open>SLOT_MINUTES\<close> as minutes.
  The same holds for every record of common cells whatsoever once there is a member. A run
  never extends over a day boundary. The blocks come in scan order, by day and then by
  slot, each once. On the example cells, one day with common slots 2, 3, 4, 7, 8 and 10
  and a minimum of 60 minutes, the blocks are \<open>(2, 5, 90)\<close> and \<open>(7, 9, 60)\<close>, and
  the lone slot 10 gives none.
\<close>

theorem recommendedBlocks_runs:
  "list_all (\<lambda>md. int SLOT_MINUTES dvd md) DURATION_OPTIONS \<and>
   (int SLOT_MINUTES dvd md \<longrightarrow>
      set (recommendedBlocks mfc (commonCells mfc counts) md) =
        {block_of d a b | d a b. d < DAY_COUNT \<and>
           maximal_run (common_at (commonCells mfc counts) d) SLOT_COUNT a b \<and>
           md \<le> minutes (block_of d a b)}) \<and>
   (int SLOT_MINUTES dvd md \<and> mfc \<noteq> [] \<longrightarrow>
      set (recommendedBlocks mfc cc md) =
        {block_of d a b | d a b. d < DAY_COUNT \<and>
           maximal_run (common_at cc d) SLOT_COUNT a b \<and>
           md \<le> minutes (block_of d a b)}) \<and>
   minutes (block_of d a b) = (int b - int a) * int SLOT_MINUTES \<and>
   sorted_wrt block_before (recommendedBlocks mfc cc md) \<and>
   distinct (recommendedBlocks mfc cc md)"
proof -
  have pipeline: "set (recommendedBlocks mfc (commonCells mfc counts) md) =
        {block_of d a b | d a b. d < DAY_COUNT \<and>
           maximal_run (common_at (commonCells mfc counts) d) SLOT_COUNT a b \<and>
           md \<le> minutes (block_of d a b)}"
    if dvd: "int SLOT_MINUTES dvd md"
  proof (cases "mfc = []")
    case True
    then show ?thesis
      by (simp add: recommendedBlocks_def commonCells_def no_run_in_empty)
  next
    case False
    then show ?thesis using dvd by (rule recommendedBlocks_whole_slots)
  qed
  have "minutes (block_of d a b) = (int b - int a) * int SLOT_MINUTES"
    by (simp add: block_of_def)
  with multiples_offered pipeline recommendedBlocks_whole_slots [of mfc md cc]
    recommendedBlocks_sorted [of mfc cc md]
    sorted_blocks_distinct [of "recommendedBlocks mfc cc md"]
  show ?thesis by blast
qed

theorem recommendedBlocks_runs_witness:
  "[member_me] \<noteq> [] \<and> int SLOT_MINUTES dvd 60 \<and> int SLOT_MINUTES dvd 30 \<and>
   recommendedBlocks [member_me] day_common 60 =
     [\<lparr> day = 0, startSlot = 2, endSlot = 5, minutes = 90 \<rparr>,
      \<lparr> day = 0, startSlot = 7, endSlot = 9, minutes = 60 \<rparr>] \<and>
   \<lparr> day = 0, startSlot = 2, endSlot = 5, minutes = 90 \<rparr>
     \<in> set (recommendedBlocks [member_me] day_common 60) \<and>
   \<lparr> day = 0, startSlot = 10, endSlot = 11, minutes = 30 \<rparr>
     \<notin> set (recommendedBlocks [member_me] day_common 60) \<and>
   \<lparr> day = 0, startSlot = 15, endSlot = 16, minutes = 30 \<rparr>
     \<in> set (recommendedBlocks [member_me]
              [(''0-15'', JBool True), (''1-0'', JBool True)] 30) \<and>
   \<lparr> day = 1, startSlot = 0, endSlot = 1, minutes = 30 \<rparr>
     \<in> set (recommendedBlocks [member_me]
              [(''0-15'', JBool True), (''1-0'', JBool True)] 30) \<and>
   recommendedBlocks [] (commonCells [] []) 60 = []"
proof -
  let ?cc = "[(''0-15'', JBool True), (''1-0'', JBool True)]"
  have ne: "[member_me] \<noteq> []" by simp
  have dv: "int SLOT_MINUTES dvd 60" "int SLOT_MINUTES dvd 30"
    by (simp_all add: SLOT_MINUTES_def)
  note t60 = recommendedBlocks_runs [where md = 60 and mfc = "[member_me]" and cc = day_common]
  from t60 ne dv(1) have set60: "set (recommendedBlocks [member_me] day_common 60) =
        {block_of d a b | d a b. d < DAY_COUNT \<and>
           maximal_run (common_at day_common d) SLOT_COUNT a b \<and>
           60 \<le> minutes (block_of d a b)}"
    by blast
  have "block_of 0 2 5 \<in>
        {block_of d a b | d a b. d < DAY_COUNT \<and>
           maximal_run (common_at day_common d) SLOT_COUNT a b \<and>
           60 \<le> minutes (block_of d a b)}"
    using day_common_run
    by (intro CollectI exI [of _ 0] exI [of _ 2] exI [of _ 5])
       (simp add: DAY_COUNT_def SLOT_MINUTES_def block_of_def)
  then have a: "\<lparr> day = 0, startSlot = 2, endSlot = 5, minutes = 90 \<rparr>
     \<in> set (recommendedBlocks [member_me] day_common 60)"
    unfolding set60 [symmetric] by (simp add: block_of_def SLOT_MINUTES_def)
  have b: "\<lparr> day = 0, startSlot = 10, endSlot = 11, minutes = 30 \<rparr>
     \<notin> set (recommendedBlocks [member_me] day_common 60)"
    unfolding set60 by (auto simp: block_of_def)
  note t30 = recommendedBlocks_runs [where md = 30 and mfc = "[member_me]" and cc = ?cc]
  from t30 ne dv(2) have set30: "set (recommendedBlocks [member_me] ?cc 30) =
        {block_of d a b | d a b. d < DAY_COUNT \<and>
           maximal_run (common_at ?cc d) SLOT_COUNT a b \<and>
           30 \<le> minutes (block_of d a b)}"
    by blast
  have "block_of 0 15 16 \<in>
        {block_of d a b | d a b. d < DAY_COUNT \<and>
           maximal_run (common_at ?cc d) SLOT_COUNT a b \<and>
           30 \<le> minutes (block_of d a b)}"
    using boundary_runs(1)
    by (intro CollectI exI [of _ 0] exI [of _ 15] exI [of _ 16])
       (simp add: DAY_COUNT_def SLOT_MINUTES_def block_of_def)
  then have c: "\<lparr> day = 0, startSlot = 15, endSlot = 16, minutes = 30 \<rparr>
     \<in> set (recommendedBlocks [member_me] ?cc 30)"
    unfolding set30 [symmetric] by (simp add: block_of_def SLOT_MINUTES_def)
  have "block_of 1 0 1 \<in>
        {block_of d a b | d a b. d < DAY_COUNT \<and>
           maximal_run (common_at ?cc d) SLOT_COUNT a b \<and>
           30 \<le> minutes (block_of d a b)}"
    using boundary_runs(2)
    by (intro CollectI exI [of _ 1] exI [of _ 0] exI [of _ 1])
       (simp add: DAY_COUNT_def SLOT_MINUTES_def block_of_def)
  then have d: "\<lparr> day = 1, startSlot = 0, endSlot = 1, minutes = 30 \<rparr>
     \<in> set (recommendedBlocks [member_me] ?cc 30)"
    unfolding set30 [symmetric] by (simp add: block_of_def SLOT_MINUTES_def)
  have e: "recommendedBlocks [] (commonCells [] []) 60 = []"
    by (simp add: recommendedBlocks_def)
  from ne dv blocks_example_eval a b c d e show ?thesis by simp
qed

end
